theory Spec2Isabelle
  imports Complex_Main "HOL-Library.Sublist"
begin

section \<open>Strings of the host language\<close>

text \<open>
  A JavaScript string is a sequence of code units; \<open>length\<close>, \<open>indexOf\<close> and \<open>trim\<close>
  work on code units. The model uses \<^typ>\<open>string\<close> (a list of \<^typ>\<open>char\<close>), so the code
  units below 256; the white space that \<open>trim\<close> removes is then TAB, LF, VT, FF, CR,
  SPACE and NBSP.
\<close>

definition isWhitespace :: "char \<Rightarrow> bool" where
  "isWhitespace c \<longleftrightarrow>
     c \<in> set [CHR 0x09, CHR 0x0A, CHR 0x0B, CHR 0x0C, CHR 0x0D, CHR 0x20, CHR 0xA0]"

definition trimStart :: "string \<Rightarrow> string" where
  "trimStart s = dropWhile isWhitespace s"

definition trimEnd :: "string \<Rightarrow> string" where
  "trimEnd s = rev (dropWhile isWhitespace (rev s))"

definition trim :: "string \<Rightarrow> string" where
  "trim s = trimEnd (trimStart s)"

text \<open>
  \<open>String.prototype.indexOf(searchString, position)\<close>: the position is clamped to
  \<open>0 .. length\<close>, the candidates are tried in ascending order from there, the empty
  search string is found at the clamped position itself, and the result is \<open>-1\<close> when no
  candidate matches. \<open>scanFrom rest pat i\<close> is the scan, \<open>rest\<close> being the text from
  position \<open>i\<close> on.
\<close>

fun scanFrom :: "string \<Rightarrow> string \<Rightarrow> nat \<Rightarrow> int" where
  "scanFrom [] pat i = (if pat = [] then int i else -1)"
| "scanFrom (c # cs) pat i = (if prefix pat (c # cs) then int i else scanFrom cs pat (Suc i))"

definition indexOf :: "string \<Rightarrow> string \<Rightarrow> int \<Rightarrow> int" where
  "indexOf s searchString position =
     (let start = nat (min (max position 0) (int (length s)))
      in scanFrom (drop start s) searchString start)"

section \<open>Chunking (utils/chunk.ts)\<close>

record ChunkConfig =
  chunkSize :: int
  chunkOverlap :: int

record Document =
  filePath :: string
  content :: string
  category :: string

record ChunkMetadata =
  filePath :: string
  chunkIndex :: int
  startOffset :: int
  endOffset :: int

record Chunk =
  content :: string
  metadata :: ChunkMetadata

datatype error =
    ConfigurationError string
  | SplitterError string
  | TypeError
  | EmbeddingError string
  | DatabaseError string
  | JudgeError string

text \<open>
  \<open>findChunkOffsets\<close>: the \<open>for ... of\<close> loop over the fragments, with its two loop
  variables \<open>previousEnd\<close> and \<open>offsets\<close>. An element \<open>{startOffset, endOffset}\<close> of the
  result is the pair \<open>(startOffset, endOffset)\<close>; \<open>findChunkOffsets_step\<close> is the body of
  the loop, which computes that pair (its second component is the next \<open>previousEnd\<close>).
\<close>

definition findChunkOffsets_step :: "string \<Rightarrow> int \<Rightarrow> string \<Rightarrow> int \<Rightarrow> int \<times> int" where
  "findChunkOffsets_step original overlap chunk previousEnd =
     (let searchStart = max 0 (previousEnd - overlap);
          found = indexOf original chunk searchStart;
          retried = (if found = -1 \<and> searchStart > 0 then indexOf original chunk 0 else found);
          startOff = (if retried = -1 then searchStart else retried);
          endOff = min (startOff + int (length chunk)) (int (length original))
      in (startOff, endOff))"

fun findChunkOffsets_loop ::
  "string \<Rightarrow> int \<Rightarrow> string list \<Rightarrow> int \<Rightarrow> (int \<times> int) list \<Rightarrow> (int \<times> int) list" where
  "findChunkOffsets_loop original overlap [] previousEnd offsets = offsets"
| "findChunkOffsets_loop original overlap (chunk # rest) previousEnd offsets =
     (let off = findChunkOffsets_step original overlap chunk previousEnd
      in findChunkOffsets_loop original overlap rest (snd off) (offsets @ [off]))"

definition findChunkOffsets :: "string \<Rightarrow> string list \<Rightarrow> int \<Rightarrow> (int \<times> int) list" where
  "findChunkOffsets original chunks overlap = findChunkOffsets_loop original overlap chunks 0 []"

text \<open>
  The second loop of \<open>chunkDocument\<close> walks \<open>splits\<close> and \<open>offsets\<close> by the same index
  \<open>i\<close>; here the two lists are consumed in step. Reading \<open>offsets[i]\<close> past the end
  would be a \<open>TypeError\<close> in the source.
\<close>

definition makeChunk :: "string \<Rightarrow> string \<Rightarrow> string \<Rightarrow> int \<times> int \<Rightarrow> int \<Rightarrow> Chunk" where
  "makeChunk original path rawSplit rawOffsets idx =
     (let trimmedSplit = trim rawSplit;
          leadingTrim = int (length rawSplit) - int (length (trimStart rawSplit));
          trailingTrim = int (length rawSplit) - int (length (trimEnd rawSplit));
          startOff = min (fst rawOffsets + leadingTrim) (int (length original));
          endOff = min (snd rawOffsets - trailingTrim) (int (length original));
          safeEndOffset = max startOff endOff
      in \<lparr> Chunk.content = trimmedSplit,
           metadata = \<lparr> ChunkMetadata.filePath = path, chunkIndex = idx,
                        startOffset = startOff, endOffset = safeEndOffset \<rparr> \<rparr>)"

fun chunkDocument_loop ::
  "string \<Rightarrow> string \<Rightarrow> string list \<Rightarrow> (int \<times> int) list \<Rightarrow> int \<Rightarrow> Chunk list
     \<Rightarrow> error + Chunk list" where
  "chunkDocument_loop original path [] offsets idx chunks = Inr chunks"
| "chunkDocument_loop original path (rawSplit # rest) offsets idx chunks =
     (if length (trim rawSplit) = 0
      then chunkDocument_loop original path rest (tl offsets) idx chunks
      else (case offsets of
              [] \<Rightarrow> Inl TypeError
            | rawOffsets # _ \<Rightarrow>
                chunkDocument_loop original path rest (tl offsets) (idx + 1)
                  (chunks @ [makeChunk original path rawSplit rawOffsets idx])))"

definition nonBlankSplits :: "string list \<Rightarrow> string list" where
  "nonBlankSplits rawSplits = filter (\<lambda>split. length (trim split) > 0) rawSplits"

text \<open>
  The library's splitter object, as far as this program uses it, is its method
  \<open>splitText\<close>: from a text to the raw fragments, or to the error it throws.
\<close>

type_synonym splitter = "string \<Rightarrow> error + string list"

text \<open>
  \<open>createMarkdownSplitter(config)\<close> constructs the library's
  \<open>RecursiveCharacterTextSplitter\<close> with the \<open>chunkSize\<close> and \<open>chunkOverlap\<close> of the
  configuration. The constructor throws (\<open>Cannot have chunkOverlap >= chunkSize\<close>) when
  the overlap is not below the size. What the constructed splitter returns for a text
  is the library's algorithm, the parameter \<open>librarySplitText\<close>.
\<close>

definition createMarkdownSplitter :: "(ChunkConfig \<Rightarrow> splitter) \<Rightarrow> ChunkConfig \<Rightarrow> error + splitter" where
  "createMarkdownSplitter librarySplitText config =
     (if chunkOverlap config \<ge> chunkSize config
      then Inl (ConfigurationError ''Cannot have chunkOverlap >= chunkSize'')
      else Inr (librarySplitText config))"

text \<open>The body of \<open>chunkDocument\<close>, with the splitter it works with.\<close>

definition chunkDocument_body :: "Document \<Rightarrow> ChunkConfig \<Rightarrow> splitter \<Rightarrow> error + Chunk list" where
  "chunkDocument_body document config splitText =
     (let overlap = chunkOverlap config;
          original = Document.content document;
          path = Document.filePath document;
          trimmedContent = trim original
      in if length trimmedContent = 0 then Inr []
         else (case splitText original of
                 Inl e \<Rightarrow> Inl e
               | Inr rawSplits \<Rightarrow>
                   (let splits = nonBlankSplits rawSplits
                    in if length splits = 0 then Inr []
                       else chunkDocument_loop original path splits
                              (findChunkOffsets original splits overlap) 0 [])))"

text \<open>
  \<open>chunkDocument(document, config, splitter = createMarkdownSplitter(config))\<close>. The
  third argument is \<open>None\<close> when the caller leaves it out; the default is then
  constructed on entry, before the body runs, so that a constructor that throws ends
  the call before the document is looked at.
\<close>

definition chunkDocument ::
  "(ChunkConfig \<Rightarrow> splitter) \<Rightarrow> Document \<Rightarrow> ChunkConfig \<Rightarrow> splitter option
     \<Rightarrow> error + Chunk list" where
  "chunkDocument librarySplitText document config splitterArg =
     (case (case splitterArg of
              Some given \<Rightarrow> Inr given
            | None \<Rightarrow> createMarkdownSplitter librarySplitText config) of
        Inl e \<Rightarrow> Inl e
      | Inr splitText \<Rightarrow> chunkDocument_body document config splitText)"

text \<open>The splitter that a call of \<open>chunkDocument\<close> works with, when it gets to its body.\<close>

definition splitterUsed :: "(ChunkConfig \<Rightarrow> splitter) \<Rightarrow> ChunkConfig \<Rightarrow> splitter option \<Rightarrow> splitter" where
  "splitterUsed librarySplitText config splitterArg =
     (case splitterArg of Some given \<Rightarrow> given | None \<Rightarrow> librarySplitText config)"

text \<open>
  \<open>chunkDocuments(documents)\<close>: the configuration is read from the environment (the
  parameter \<open>config\<close>), the splitter is constructed once, before the loop, and passed to
  every call of \<open>chunkDocument\<close>.
\<close>

fun chunkDocuments_loop ::
  "(ChunkConfig \<Rightarrow> splitter) \<Rightarrow> ChunkConfig \<Rightarrow> splitter \<Rightarrow> Document list \<Rightarrow> Chunk list
     \<Rightarrow> error + Chunk list" where
  "chunkDocuments_loop librarySplitText config splitText [] allChunks = Inr allChunks"
| "chunkDocuments_loop librarySplitText config splitText (document # rest) allChunks =
     (case chunkDocument librarySplitText document config (Some splitText) of
        Inl e \<Rightarrow> Inl e
      | Inr chunks \<Rightarrow>
          chunkDocuments_loop librarySplitText config splitText rest (allChunks @ chunks))"

definition chunkDocuments ::
  "(ChunkConfig \<Rightarrow> splitter) \<Rightarrow> ChunkConfig \<Rightarrow> Document list \<Rightarrow> error + Chunk list" where
  "chunkDocuments librarySplitText config documents =
     (case createMarkdownSplitter librarySplitText config of
        Inl e \<Rightarrow> Inl e
      | Inr splitText \<Rightarrow> chunkDocuments_loop librarySplitText config splitText documents [])"

text \<open>
  What the second loop returns when every fragment is non-blank and there is one pair of
  offsets per fragment, without the accumulator: the chunk of fragment \<open>i\<close> is made from
  \<open>splits[i]\<close> and \<open>offsets[i]\<close> and gets the index \<open>i\<close>.
\<close>

fun loopChunks :: "string \<Rightarrow> string \<Rightarrow> string list \<Rightarrow> (int \<times> int) list \<Rightarrow> int \<Rightarrow> Chunk list" where
  "loopChunks original path [] offsets idx = []"
| "loopChunks original path (rawSplit # rest) offsets idx =
     makeChunk original path rawSplit (hd offsets) idx
       # loopChunks original path rest (tl offsets) (idx + 1)"

subsection \<open>The offset resolver as the specification words it\<close>

text \<open>
  A fragment occurs at position \<open>i\<close> of the original text when the text holds it there in
  full. The first occurrence at or after \<open>searchStart\<close> is the least such position that
  is not below \<open>searchStart\<close>. \<open>resolve\<close> follows the specification's algorithm sentence by
  sentence; it is compared with \<open>findChunkOffsets\<close> below.
\<close>

definition occursAt :: "string \<Rightarrow> string \<Rightarrow> nat \<Rightarrow> bool" where
  "occursAt original fragment i \<longleftrightarrow>
     i + length fragment \<le> length original \<and>
     take (length fragment) (drop i original) = fragment"

definition firstOccurrenceFrom :: "string \<Rightarrow> string \<Rightarrow> int \<Rightarrow> int option" where
  "firstOccurrenceFrom original fragment searchStart =
     map_option int
       (find (occursAt original fragment) [nat searchStart..<Suc (length original)])"

definition resolve_step :: "string \<Rightarrow> int \<Rightarrow> string \<Rightarrow> int \<Rightarrow> int \<times> int" where
  "resolve_step original overlap fragment previousEnd =
     (let searchStart = max 0 (previousEnd - overlap);
          start = (case firstOccurrenceFrom original fragment searchStart of
                     Some i \<Rightarrow> i
                   | None \<Rightarrow>
                       (if searchStart > 0
                        then (case firstOccurrenceFrom original fragment 0 of
                                Some i \<Rightarrow> i
                              | None \<Rightarrow> searchStart)
                        else searchStart));
          end = min (start + int (length fragment)) (int (length original))
      in (start, end))"

fun resolve_from :: "string \<Rightarrow> int \<Rightarrow> string list \<Rightarrow> int \<Rightarrow> (int \<times> int) list" where
  "resolve_from original overlap [] previousEnd = []"
| "resolve_from original overlap (fragment # rest) previousEnd =
     (let r = resolve_step original overlap fragment previousEnd
      in r # resolve_from original overlap rest (snd r))"

definition resolve :: "string \<Rightarrow> string list \<Rightarrow> int \<Rightarrow> (int \<times> int) list" where
  "resolve original fragments overlap = resolve_from original overlap fragments 0"

text \<open>The specification's slice \<open>content[startOffset:endOffset]\<close>.\<close>

definition slice :: "string \<Rightarrow> int \<Rightarrow> int \<Rightarrow> string" where
  "slice s a b = take (nat (b - a)) (drop (nat a) s)"

section \<open>Embedding (utils/embed.ts)\<close>

text \<open>
  An embedding is a vector of numbers, here a list of reals. \<open>generateEmbedding\<close> calls the
  provider; the call is the parameter \<open>generateEmbedding\<close>, from the text to the vector
  or to the error it throws. \<open>{...chunk, embedding}\<close> copies the fields of the chunk.
\<close>

record EmbeddedChunk = Chunk +
  embedding :: "real list"

fun embedChunks_loop ::
  "(string \<Rightarrow> error + real list) \<Rightarrow> Chunk list \<Rightarrow> EmbeddedChunk list
     \<Rightarrow> error + EmbeddedChunk list" where
  "embedChunks_loop generateEmbedding [] embeddedChunks = Inr embeddedChunks"
| "embedChunks_loop generateEmbedding (chunk # rest) embeddedChunks =
     (case generateEmbedding (Chunk.content chunk) of
        Inl e \<Rightarrow> Inl e
      | Inr v \<Rightarrow>
          embedChunks_loop generateEmbedding rest
            (embeddedChunks @
               [\<lparr> Chunk.content = Chunk.content chunk, metadata = Chunk.metadata chunk,
                   embedding = v \<rparr>]))"

definition embedChunks ::
  "(string \<Rightarrow> error + real list) \<Rightarrow> Chunk list \<Rightarrow> error + EmbeddedChunk list" where
  "embedChunks generateEmbedding chunks = embedChunks_loop generateEmbedding chunks []"

section \<open>Storage (utils/database.ts, init.sql)\<close>

record DocumentInput =
  content :: string
  category :: string
  filePath :: string

record DocumentChunkInput =
  content :: string
  chunkIndex :: int
  startOffset :: int
  endOffset :: int
  embedding :: "real list"

record DocumentWithChunksInput =
  document :: DocumentInput
  chunks :: "DocumentChunkInput list"

text \<open>The rows of the tables \<open>document\<close> and \<open>document_chunk\<close>, without \<open>created_at\<close>.\<close>

record DocumentRecord =
  id' :: int
  content :: string
  category :: string
  filePath :: string

record DocumentChunkRecord =
  id' :: int
  documentId :: int
  content :: string
  chunkIndex :: int
  startOffset :: int
  endOffset :: int
  embedding :: "real list"

record SearchResult =
  id' :: int
  documentId :: int
  content :: string
  category :: string
  filePath :: string
  chunkIndex :: int
  startOffset :: int
  endOffset :: int
  similarity :: real

record Tables =
  documentTable :: "DocumentRecord list"
  chunkTable :: "DocumentChunkRecord list"

text \<open>
  The database as one client sees it: the committed tables, which every reader sees; the
  tables of the open transaction, if there is one; and the two \<open>SERIAL\<close> sequences, which
  a rollback does not reset.
\<close>

record Database =
  committed :: Tables
  transaction :: "Tables option"
  documentSeq :: int
  chunkSeq :: int

datatype statement =
    InsertDocument DocumentInput
  | InsertChunk int DocumentChunkInput

definition begin_tx :: "Database \<Rightarrow> Database" where
  "begin_tx db = db\<lparr> transaction := Some (committed db) \<rparr>"

definition commit_tx :: "Database \<Rightarrow> Database" where
  "commit_tx db =
     (case transaction db of
        None \<Rightarrow> db
      | Some t \<Rightarrow> db\<lparr> committed := t, transaction := None \<rparr>)"

definition rollback_tx :: "Database \<Rightarrow> Database" where
  "rollback_tx db = db\<lparr> transaction := None \<rparr>"

definition currentTables :: "Database \<Rightarrow> Tables" where
  "currentTables db = (case transaction db of None \<Rightarrow> committed db | Some t \<Rightarrow> t)"

definition writeTables :: "Tables \<Rightarrow> Database \<Rightarrow> Database" where
  "writeTables t db =
     (case transaction db of
        None \<Rightarrow> db\<lparr> committed := t \<rparr>
      | Some _ \<Rightarrow> db\<lparr> transaction := Some t \<rparr>)"

text \<open>
  An \<open>INSERT\<close> is a query to the storage engine, which may throw (a constraint, the
  dimension of the vector, the connection). Which statements the engine accepts is the
  parameter \<open>accepts\<close>. An accepted statement appends its row, inside the transaction
  when one is open, and returns the new \<open>id\<close>.
\<close>

definition insertDocument ::
  "(statement \<Rightarrow> bool) \<Rightarrow> DocumentInput \<Rightarrow> Database \<Rightarrow> (error + int) \<times> Database" where
  "insertDocument accepts doc db =
     (if accepts (InsertDocument doc)
      then (let newId = documentSeq db + 1;
                t = currentTables db;
                row = \<lparr> DocumentRecord.id' = newId,
                        content = DocumentInput.content doc,
                        category = DocumentInput.category doc,
                        filePath = DocumentInput.filePath doc \<rparr>
            in (Inr newId,
                writeTables (t\<lparr> documentTable := documentTable t @ [row] \<rparr>)
                  (db\<lparr> documentSeq := newId \<rparr>)))
      else (Inl (DatabaseError ''insert into document failed''), db))"

definition insertChunkRow ::
  "(statement \<Rightarrow> bool) \<Rightarrow> int \<Rightarrow> DocumentChunkInput \<Rightarrow> Database
     \<Rightarrow> (error + int) \<times> Database" where
  "insertChunkRow accepts docId chunk db =
     (if accepts (InsertChunk docId chunk)
      then (let newId = chunkSeq db + 1;
                t = currentTables db;
                row = \<lparr> DocumentChunkRecord.id' = newId,
                        documentId = docId,
                        content = DocumentChunkInput.content chunk,
                        chunkIndex = DocumentChunkInput.chunkIndex chunk,
                        startOffset = DocumentChunkInput.startOffset chunk,
                        endOffset = DocumentChunkInput.endOffset chunk,
                        embedding = DocumentChunkInput.embedding chunk \<rparr>
            in (Inr newId,
                writeTables (t\<lparr> chunkTable := chunkTable t @ [row] \<rparr>)
                  (db\<lparr> chunkSeq := newId \<rparr>)))
      else (Inl (DatabaseError ''insert into document_chunk failed''), db))"

fun insertDocumentChunks_loop ::
  "(statement \<Rightarrow> bool) \<Rightarrow> int \<Rightarrow> DocumentChunkInput list \<Rightarrow> int list \<Rightarrow> Database
     \<Rightarrow> (error + int list) \<times> Database" where
  "insertDocumentChunks_loop accepts docId [] insertedIds db = (Inr insertedIds, db)"
| "insertDocumentChunks_loop accepts docId (chunk # rest) insertedIds db =
     (case insertChunkRow accepts docId chunk db of
        (Inl e, db') \<Rightarrow> (Inl e, db')
      | (Inr newId, db') \<Rightarrow>
          insertDocumentChunks_loop accepts docId rest (insertedIds @ [newId]) db')"

definition insertDocumentChunks ::
  "(statement \<Rightarrow> bool) \<Rightarrow> int \<Rightarrow> DocumentChunkInput list \<Rightarrow> Database
     \<Rightarrow> (error + int list) \<times> Database" where
  "insertDocumentChunks accepts docId chunkInputs db =
     (if length chunkInputs = 0 then (Inr [], db)
      else insertDocumentChunks_loop accepts docId chunkInputs [] db)"

fun insertDocuments_loop ::
  "(statement \<Rightarrow> bool) \<Rightarrow> DocumentWithChunksInput list \<Rightarrow> int list \<Rightarrow> Database
     \<Rightarrow> (error + int list) \<times> Database" where
  "insertDocuments_loop accepts [] ids db = (Inr ids, db)"
| "insertDocuments_loop accepts (doc # rest) ids db =
     (case insertDocument accepts (DocumentWithChunksInput.document doc) db of
        (Inl e, db') \<Rightarrow> (Inl e, db')
      | (Inr newId, db') \<Rightarrow>
          (case insertDocumentChunks accepts newId (DocumentWithChunksInput.chunks doc) db' of
             (Inl e, db'') \<Rightarrow> (Inl e, db'')
           | (Inr _, db'') \<Rightarrow> insertDocuments_loop accepts rest (ids @ [newId]) db''))"

text \<open>
  \<open>insertDocuments\<close>: \<open>BEGIN\<close>, the loop over all the documents of the call, \<open>COMMIT\<close>;
  the \<open>catch\<close> block sends \<open>ROLLBACK\<close> and throws the error again.
\<close>

definition insertDocuments ::
  "(statement \<Rightarrow> bool) \<Rightarrow> DocumentWithChunksInput list \<Rightarrow> Database
     \<Rightarrow> (error + int list) \<times> Database" where
  "insertDocuments accepts docs db =
     (if length docs = 0 then (Inr [], db)
      else (case insertDocuments_loop accepts docs [] (begin_tx db) of
              (Inr ids, db') \<Rightarrow> (Inr ids, commit_tx db')
            | (Inl e, db') \<Rightarrow> (Inl e, rollback_tx db')))"

definition documentInputOf :: "DocumentRecord \<Rightarrow> DocumentInput" where
  "documentInputOf r =
     \<lparr> DocumentInput.content = DocumentRecord.content r,
       category = DocumentRecord.category r,
       filePath = DocumentRecord.filePath r \<rparr>"

definition chunkInputOf :: "DocumentChunkRecord \<Rightarrow> DocumentChunkInput" where
  "chunkInputOf r =
     \<lparr> DocumentChunkInput.content = DocumentChunkRecord.content r,
       chunkIndex = DocumentChunkRecord.chunkIndex r,
       startOffset = DocumentChunkRecord.startOffset r,
       endOffset = DocumentChunkRecord.endOffset r,
       embedding = DocumentChunkRecord.embedding r \<rparr>"

text \<open>
  \<open>searchByVector\<close> is one \<open>SELECT\<close>: the join of the chunks with their documents, the
  \<open>WHERE\<close> clause (the column \<open>embedding\<close> is \<open>NOT NULL\<close> in the schema, which leaves the
  category test), \<open>ORDER BY\<close> the distance to the query vector, \<open>LIMIT\<close>. The distance
  operator \<open><=>\<close> of the engine is the parameter \<open>distance\<close>; the similarity of a row is
  \<open>1 - distance\<close>. The schema puts an \<open>ivfflat\<close> index on the column, which makes the
  search approximate: the scan visits the rows of the lists it probes only, so the
  query may return fewer rows than the \<open>LIMIT\<close> and than the join has. Which chunk rows
  the scan visits for a query vector is the parameter \<open>scanned\<close> (all of them for a
  sequential scan). The engine rejects a negative \<open>LIMIT\<close>. A new client reads the
  committed tables.
\<close>

definition chunkDocumentJoin :: "Tables \<Rightarrow> (DocumentChunkRecord \<times> DocumentRecord) list" where
  "chunkDocumentJoin t =
     [(dc, d). dc \<leftarrow> chunkTable t, d \<leftarrow> documentTable t,
        DocumentRecord.id' d = DocumentChunkRecord.documentId dc]"

text \<open>The \<open>SELECT\<close> list: the result row of a chunk row and its document row.\<close>

definition toSearchResult ::
  "(real list \<Rightarrow> real list \<Rightarrow> real) \<Rightarrow> real list \<Rightarrow> DocumentChunkRecord \<times> DocumentRecord
     \<Rightarrow> SearchResult" where
  "toSearchResult distance queryVector row =
     (case row of (dc, d) \<Rightarrow>
        \<lparr> SearchResult.id' = DocumentChunkRecord.id' dc,
          documentId = DocumentChunkRecord.documentId dc,
          content = DocumentChunkRecord.content dc,
          category = DocumentRecord.category d,
          filePath = DocumentRecord.filePath d,
          chunkIndex = DocumentChunkRecord.chunkIndex dc,
          startOffset = DocumentChunkRecord.startOffset dc,
          endOffset = DocumentChunkRecord.endOffset dc,
          similarity = 1 - distance (DocumentChunkRecord.embedding dc) queryVector \<rparr>)"

text \<open>The rows that the scan visits and the \<open>WHERE\<close> clause keeps.\<close>

definition selectedRows ::
  "(real list \<Rightarrow> DocumentChunkRecord \<Rightarrow> bool) \<Rightarrow> Database \<Rightarrow> real list \<Rightarrow> string option
     \<Rightarrow> (DocumentChunkRecord \<times> DocumentRecord) list" where
  "selectedRows scanned db queryVector categoryFilter =
     filter (\<lambda>(dc, d). scanned queryVector dc \<and>
                (categoryFilter = None \<or> categoryFilter = Some (DocumentRecord.category d)))
       (chunkDocumentJoin (committed db))"

definition searchByVector ::
  "(real list \<Rightarrow> real list \<Rightarrow> real) \<Rightarrow> (real list \<Rightarrow> DocumentChunkRecord \<Rightarrow> bool) \<Rightarrow> Database
     \<Rightarrow> real list \<Rightarrow> int \<Rightarrow> string option \<Rightarrow> error + SearchResult list" where
  "searchByVector distance scanned db queryVector limit categoryFilter =
     (if limit < 0 then Inl (DatabaseError ''LIMIT must not be negative'')
      else
        (let selected = selectedRows scanned db queryVector categoryFilter;
             ordered = sort_key (\<lambda>(dc, d). distance (DocumentChunkRecord.embedding dc) queryVector)
                         selected;
             limited = take (nat limit) ordered
         in Inr (map (toSearchResult distance queryVector) limited)))"

section \<open>Retrieval (retrieve.ts)\<close>

text \<open>
  \<open>retrieve(query, category)\<close> embeds the query and searches; \<open>topK\<close> is read from the
  environment. The elapsed time of the result is a reading of the clock and is left out.
\<close>

record RetrieveResult =
  query :: string
  results :: "SearchResult list"

definition retrieve ::
  "(real list \<Rightarrow> real list \<Rightarrow> real) \<Rightarrow> (real list \<Rightarrow> DocumentChunkRecord \<Rightarrow> bool)
     \<Rightarrow> (string \<Rightarrow> error + real list) \<Rightarrow> Database \<Rightarrow> int
     \<Rightarrow> string \<Rightarrow> string option \<Rightarrow> error + RetrieveResult" where
  "retrieve distance scanned generateEmbedding db topK queryText categoryFilter =
     (case generateEmbedding queryText of
        Inl e \<Rightarrow> Inl e
      | Inr v \<Rightarrow>
          (case searchByVector distance scanned db v topK categoryFilter of
             Inl e \<Rightarrow> Inl e
           | Inr found \<Rightarrow> Inr \<lparr> RetrieveResult.query = queryText, results = found \<rparr>))"

section \<open>Evaluation (eval.ts)\<close>

record JudgeScores =
  relevance :: int
  sufficiency :: int
  reasoning :: string

record ChunkEvaluation =
  chunkIndex :: int
  filePath :: string
  relevance :: int
  sufficiency :: int
  reasoning :: string

record EvalResult =
  query :: string
  chunks :: "ChunkEvaluation list"
  avgRelevance :: real
  avgSufficiency :: real

text \<open>
  \<open>evaluateChunk\<close> sends the prompt to the judge model and parses the answer. The call
  (\<open>client.send\<close> and the decoding of its body) is the parameter \<open>invokeJudge\<close>;
  \<open>parseJudgeResponse\<close>, which rests on \<open>JSON.parse\<close>, is the parameter of that name.
  Either may throw.
\<close>

definition evaluateChunk ::
  "(string \<Rightarrow> SearchResult \<Rightarrow> error + string) \<Rightarrow> (string \<Rightarrow> error + JudgeScores)
     \<Rightarrow> string \<Rightarrow> SearchResult \<Rightarrow> error + ChunkEvaluation" where
  "evaluateChunk invokeJudge parseJudgeResponse queryText chunk =
     (case invokeJudge queryText chunk of
        Inl e \<Rightarrow> Inl e
      | Inr responseText \<Rightarrow>
          (case parseJudgeResponse responseText of
             Inl e \<Rightarrow> Inl e
           | Inr parsed \<Rightarrow>
               Inr \<lparr> ChunkEvaluation.chunkIndex = SearchResult.chunkIndex chunk,
                     filePath = SearchResult.filePath chunk,
                     relevance = JudgeScores.relevance parsed,
                     sufficiency = JudgeScores.sufficiency parsed,
                     reasoning = JudgeScores.reasoning parsed \<rparr>))"

definition failedEvaluation :: "SearchResult \<Rightarrow> ChunkEvaluation" where
  "failedEvaluation result =
     \<lparr> ChunkEvaluation.chunkIndex = SearchResult.chunkIndex result,
       filePath = SearchResult.filePath result,
       relevance = 1,
       sufficiency = 1,
       reasoning = ''Evaluation failed; defaulted to lowest scores.'' \<rparr>"

fun runEval_loop ::
  "(string \<Rightarrow> SearchResult \<Rightarrow> error + string) \<Rightarrow> (string \<Rightarrow> error + JudgeScores)
     \<Rightarrow> string \<Rightarrow> SearchResult list \<Rightarrow> ChunkEvaluation list \<Rightarrow> ChunkEvaluation list" where
  "runEval_loop invokeJudge parseJudgeResponse queryText [] evaluations = evaluations"
| "runEval_loop invokeJudge parseJudgeResponse queryText (result # rest) evaluations =
     (case evaluateChunk invokeJudge parseJudgeResponse queryText result of
        Inr evaluation \<Rightarrow>
          runEval_loop invokeJudge parseJudgeResponse queryText rest
            (evaluations @ [evaluation])
      | Inl e \<Rightarrow>
          runEval_loop invokeJudge parseJudgeResponse queryText rest
            (evaluations @ [failedEvaluation result]))"

definition average :: "int list \<Rightarrow> real" where
  "average xs = (if length xs > 0 then real_of_int (sum_list xs) / real (length xs) else 0)"

definition runEval ::
  "(real list \<Rightarrow> real list \<Rightarrow> real) \<Rightarrow> (real list \<Rightarrow> DocumentChunkRecord \<Rightarrow> bool)
     \<Rightarrow> (string \<Rightarrow> error + real list) \<Rightarrow> Database \<Rightarrow> int
     \<Rightarrow> (string \<Rightarrow> SearchResult \<Rightarrow> error + string) \<Rightarrow> (string \<Rightarrow> error + JudgeScores)
     \<Rightarrow> string \<Rightarrow> string option \<Rightarrow> error + EvalResult" where
  "runEval distance scanned generateEmbedding db topK invokeJudge parseJudgeResponse queryText
       categoryFilter =
     (case retrieve distance scanned generateEmbedding db topK queryText categoryFilter of
        Inl e \<Rightarrow> Inl e
      | Inr retrievalResult \<Rightarrow>
          (let evaluations =
                 runEval_loop invokeJudge parseJudgeResponse queryText
                   (RetrieveResult.results retrievalResult) []
           in Inr \<lparr> EvalResult.query = queryText,
                    chunks = evaluations,
                    avgRelevance = average (map ChunkEvaluation.relevance evaluations),
                    avgSufficiency = average (map ChunkEvaluation.sufficiency evaluations) \<rparr>))"

section \<open>Example inputs\<close>

text \<open>
  A splitter that returns a given list of fragments, a document with a given text, and a
  chunk with given content, index and offsets, for the concrete runs below.
\<close>

definition fixedSplitter :: "string list \<Rightarrow> string \<Rightarrow> error + string list" where
  "fixedSplitter rawSplits s = Inr rawSplits"

definition exampleDocument :: "string \<Rightarrow> Document" where
  "exampleDocument s = \<lparr> Document.filePath = ''guide/a.md'', content = s, category = ''guide'' \<rparr>"

definition exampleChunk :: "string \<Rightarrow> int \<Rightarrow> int \<Rightarrow> int \<Rightarrow> Chunk" where
  "exampleChunk s idx a b =
     \<lparr> Chunk.content = s,
       metadata = \<lparr> ChunkMetadata.filePath = ''guide/a.md'', chunkIndex = idx,
                    startOffset = a, endOffset = b \<rparr> \<rparr>"

definition exampleTables :: Tables where
  "exampleTables =
     \<lparr> documentTable =
         [\<lparr> DocumentRecord.id' = 1, content = ''packing slips'', category = ''shipping'',
             filePath = ''shipping/slips.md'' \<rparr>,
          \<lparr> DocumentRecord.id' = 2, content = ''welcome'', category = ''general'',
             filePath = ''welcome.md'' \<rparr>],
       chunkTable =
         [\<lparr> DocumentChunkRecord.id' = 1, documentId = 1, content = ''packing'', chunkIndex = 0,
             startOffset = 0, endOffset = 7, embedding = [4] \<rparr>,
          \<lparr> DocumentChunkRecord.id' = 2, documentId = 1, content = ''slips'', chunkIndex = 1,
             startOffset = 8, endOffset = 13, embedding = [2] \<rparr>,
          \<lparr> DocumentChunkRecord.id' = 3, documentId = 2, content = ''welcome'', chunkIndex = 0,
             startOffset = 0, endOffset = 7, embedding = [3] \<rparr>] \<rparr>"

definition exampleDatabase :: Database where
  "exampleDatabase =
     \<lparr> committed = exampleTables, transaction = None, documentSeq = 2, chunkSeq = 3 \<rparr>"

definition emptyDatabase :: Database where
  "emptyDatabase =
     \<lparr> committed = \<lparr> documentTable = [], chunkTable = [] \<rparr>, transaction = None,
       documentSeq = 0, chunkSeq = 0 \<rparr>"

definition exampleDistance :: "real list \<Rightarrow> real list \<Rightarrow> real" where
  "exampleDistance a b = \<bar>sum_list a - sum_list b\<bar>"

definition scanAll :: "real list \<Rightarrow> DocumentChunkRecord \<Rightarrow> bool" where
  "scanAll v dc = True"

definition scanExcept :: "int \<Rightarrow> real list \<Rightarrow> DocumentChunkRecord \<Rightarrow> bool" where
  "scanExcept missed v dc = (DocumentChunkRecord.id' dc \<noteq> missed)"

definition exampleEmbedding :: "string \<Rightarrow> error + real list" where
  "exampleEmbedding s =
     (if s = [] then Inl (EmbeddingError ''empty input'') else Inr [real (length s)])"

definition exampleResult :: "int \<Rightarrow> int \<Rightarrow> string \<Rightarrow> string \<Rightarrow> string \<Rightarrow> int \<Rightarrow> int \<Rightarrow> int \<Rightarrow> real
     \<Rightarrow> SearchResult" where
  "exampleResult i di c cat path idx a b sim =
     \<lparr> SearchResult.id' = i, documentId = di, content = c, category = cat, filePath = path,
       chunkIndex = idx, startOffset = a, endOffset = b, similarity = sim \<rparr>"

definition exampleInput :: "string \<Rightarrow> string list \<Rightarrow> DocumentWithChunksInput" where
  "exampleInput path contents =
     \<lparr> DocumentWithChunksInput.document =
         \<lparr> DocumentInput.content = path, category = ''general'', filePath = path \<rparr>,
       chunks = map (\<lambda>c. \<lparr> DocumentChunkInput.content = c, chunkIndex = 0, startOffset = 0,
                              endOffset = int (length c), embedding = [1] \<rparr>) contents \<rparr>"

definition acceptsExcept :: "string \<Rightarrow> statement \<Rightarrow> bool" where
  "acceptsExcept bad s =
     (case s of
        InsertDocument d \<Rightarrow> True
      | InsertChunk docId c \<Rightarrow> DocumentChunkInput.content c \<noteq> bad)"

definition exampleJudge :: "string \<Rightarrow> SearchResult \<Rightarrow> error + string" where
  "exampleJudge q r =
     (if SearchResult.chunkIndex r = 0 then Inl (JudgeError ''throttled'') else Inr ''{}'')"

definition exampleParse :: "string \<Rightarrow> error + JudgeScores" where
  "exampleParse s =
     Inr \<lparr> JudgeScores.relevance = 4, sufficiency = 3, reasoning = ''ok'' \<rparr>"

section \<open>Properties of the string functions and of the chunking loops\<close>

lemma scanFrom_range: "scanFrom rest pat i = -1 \<or> int i \<le> scanFrom rest pat i"
  by (induction rest pat i rule: scanFrom.induct) auto

lemma indexOf_range: "indexOf s pat pos = -1 \<or> 0 \<le> indexOf s pat pos"
proof -
  define k where "k = nat (min (max pos 0) (int (length s)))"
  have "indexOf s pat pos = scanFrom (drop k s) pat k"
    by (simp add: indexOf_def k_def Let_def)
  with scanFrom_range [of "drop k s" pat k] show ?thesis by auto
qed

lemma step_fst_nonneg: "0 \<le> fst (findChunkOffsets_step t ov c p)"
  using indexOf_range [of t c "max 0 (p - ov)"] indexOf_range [of t c 0]
  by (auto simp: findChunkOffsets_step_def Let_def)

lemma findChunkOffsets_loop_acc:
  "findChunkOffsets_loop t ov cs p acc = acc @ findChunkOffsets_loop t ov cs p []"
proof (induction cs arbitrary: p acc)
  case Nil
  show ?case by simp
next
  case (Cons c cs)
  show ?case
    using Cons.IH [of "snd (findChunkOffsets_step t ov c p)" "acc @ [findChunkOffsets_step t ov c p]"]
          Cons.IH [of "snd (findChunkOffsets_step t ov c p)" "[findChunkOffsets_step t ov c p]"]
    by (simp add: Let_def)
qed

lemma findChunkOffsets_loop_Cons:
  "findChunkOffsets_loop t ov (c # cs) p [] =
     findChunkOffsets_step t ov c p
       # findChunkOffsets_loop t ov cs (snd (findChunkOffsets_step t ov c p)) []"
  using findChunkOffsets_loop_acc [of t ov cs _ "[findChunkOffsets_step t ov c p]"]
  by (simp add: Let_def)

lemma findChunkOffsets_loop_length:
  "length (findChunkOffsets_loop t ov cs p []) = length cs"
proof (induction cs arbitrary: p)
  case Nil
  show ?case by simp
next
  case (Cons c cs)
  show ?case unfolding findChunkOffsets_loop_Cons using Cons.IH by simp
qed

lemma findChunkOffsets_length: "length (findChunkOffsets t cs ov) = length cs"
  by (simp add: findChunkOffsets_def findChunkOffsets_loop_length)

lemma chunkDocument_loop_result:
  "length offs = length splits \<Longrightarrow> \<forall>s \<in> set splits. trim s \<noteq> [] \<Longrightarrow>
     chunkDocument_loop t path splits offs idx acc = Inr (acc @ loopChunks t path splits offs idx)"
proof (induction splits arbitrary: offs idx acc)
  case Nil
  then show ?case by simp
next
  case (Cons s r)
  then obtain off offs' where o: "offs = off # offs'" by (cases offs) auto
  with Cons show ?case by simp
qed

lemma loopChunks_length: "length (loopChunks t path splits offs idx) = length splits"
  by (induction splits arbitrary: offs idx) auto

lemma loopChunks_nth:
  "length offs = length splits \<Longrightarrow> i < length splits \<Longrightarrow>
     loopChunks t path splits offs idx ! i = makeChunk t path (splits ! i) (offs ! i) (idx + int i)"
proof (induction splits arbitrary: offs idx i)
  case Nil
  then show ?case by simp
next
  case (Cons s r)
  then obtain off offs' where o: "offs = off # offs'" by (cases offs) auto
  show ?case
  proof (cases i)
    case 0
    then show ?thesis using o by simp
  next
    case (Suc j)
    then show ?thesis using Cons.IH [of offs' j "idx + 1"] Cons.prems o by (simp add: add.assoc)
  qed
qed

lemma chunkDocument_body_blank:
  "trim (Document.content doc) = [] \<Longrightarrow> chunkDocument_body doc cfg splitText = Inr []"
  by (simp add: chunkDocument_body_def Let_def)

lemma chunkDocument_body_Inr:
  assumes "trim (Document.content doc) \<noteq> []"
      and "splitText (Document.content doc) = Inr rawSplits"
  shows "chunkDocument_body doc cfg splitText =
           Inr (loopChunks (Document.content doc) (Document.filePath doc)
                  (nonBlankSplits rawSplits)
                  (findChunkOffsets (Document.content doc) (nonBlankSplits rawSplits)
                     (chunkOverlap cfg)) 0)"
proof (cases "nonBlankSplits rawSplits = []")
  case True
  then show ?thesis using assms by (simp add: chunkDocument_body_def Let_def nonBlankSplits_def)
next
  case False
  have nb: "\<forall>s \<in> set (nonBlankSplits rawSplits). trim s \<noteq> []"
    by (simp add: nonBlankSplits_def)
  have "chunkDocument_body doc cfg splitText =
          chunkDocument_loop (Document.content doc) (Document.filePath doc)
            (nonBlankSplits rawSplits)
            (findChunkOffsets (Document.content doc) (nonBlankSplits rawSplits)
               (chunkOverlap cfg)) 0 []"
    using assms False by (simp add: chunkDocument_body_def Let_def nonBlankSplits_def)
  also have "\<dots> = Inr ([] @ loopChunks (Document.content doc) (Document.filePath doc)
                  (nonBlankSplits rawSplits)
                  (findChunkOffsets (Document.content doc) (nonBlankSplits rawSplits)
                     (chunkOverlap cfg)) 0)"
    by (rule chunkDocument_loop_result) (simp_all add: findChunkOffsets_length nb)
  finally show ?thesis by simp
qed

lemma chunkDocument_body_cases:
  assumes "chunkDocument_body doc cfg splitText = Inr cs"
  shows "(trim (Document.content doc) = [] \<and> cs = []) \<or>
         (\<exists>rawSplits. trim (Document.content doc) \<noteq> [] \<and>
            splitText (Document.content doc) = Inr rawSplits \<and>
            cs = loopChunks (Document.content doc) (Document.filePath doc)
                  (nonBlankSplits rawSplits)
                  (findChunkOffsets (Document.content doc) (nonBlankSplits rawSplits)
                     (chunkOverlap cfg)) 0)"
proof (cases "trim (Document.content doc) = []")
  case True
  then show ?thesis using assms chunkDocument_body_blank [OF True, of cfg splitText] by simp
next
  case False
  show ?thesis
  proof (cases "splitText (Document.content doc)")
    case (Inl e)
    then show ?thesis using assms False by (simp add: chunkDocument_body_def Let_def)
  next
    case (Inr rawSplits)
    then show ?thesis using assms False chunkDocument_body_Inr [of doc splitText rawSplits cfg] by simp
  qed
qed

lemma makeChunk_bounds:
  assumes "0 \<le> fst off"
  shows "0 \<le> ChunkMetadata.startOffset (Chunk.metadata (makeChunk t path s off idx))"
    and "ChunkMetadata.startOffset (Chunk.metadata (makeChunk t path s off idx)) \<le> ChunkMetadata.endOffset (Chunk.metadata (makeChunk t path s off idx))"
    and "ChunkMetadata.endOffset (Chunk.metadata (makeChunk t path s off idx)) \<le> int (length t)"
proof -
  have "length (trimStart s) \<le> length s"
    by (simp add: trimStart_def length_dropWhile_le)
  then show "0 \<le> ChunkMetadata.startOffset (Chunk.metadata (makeChunk t path s off idx))"
    using assms by (simp add: makeChunk_def Let_def)
  show "ChunkMetadata.startOffset (Chunk.metadata (makeChunk t path s off idx)) \<le> ChunkMetadata.endOffset (Chunk.metadata (makeChunk t path s off idx))"
    by (simp add: makeChunk_def Let_def)
  show "ChunkMetadata.endOffset (Chunk.metadata (makeChunk t path s off idx)) \<le> int (length t)"
    by (simp add: makeChunk_def Let_def)
qed

lemma findChunkOffsets_loop_nonneg:
  "off \<in> set (findChunkOffsets_loop t ov cs p []) \<Longrightarrow> 0 \<le> fst off"
proof (induction cs arbitrary: p)
  case Nil
  then show ?case by simp
next
  case (Cons c cs)
  then show ?case unfolding findChunkOffsets_loop_Cons
    using step_fst_nonneg [of t ov c p] by auto
qed



lemma prefix_occursAt:
  "k \<le> length t \<Longrightarrow> prefix pat (drop k t) \<longleftrightarrow> occursAt t pat k"
proof
  assume k: "k \<le> length t" and "prefix pat (drop k t)"
  then obtain zs where z: "drop k t = pat @ zs" by (auto simp: prefix_def)
  then have "length (drop k t) = length pat + length zs" by simp
  with k have "k + length pat \<le> length t" by simp
  moreover have "take (length pat) (drop k t) = pat" using z by simp
  ultimately show "occursAt t pat k" by (simp add: occursAt_def)
next
  assume "occursAt t pat k"
  then have "take (length pat) (drop k t) = pat" by (simp add: occursAt_def)
  then show "prefix pat (drop k t)" by (metis take_is_prefix)
qed

lemma scanFrom_find:
  "k \<le> length t \<Longrightarrow>
     scanFrom (drop k t) pat k =
       (case find (occursAt t pat) [k..<Suc (length t)] of None \<Rightarrow> -1 | Some i \<Rightarrow> int i)"
proof (induction "length t - k" arbitrary: k)
  case 0
  then have k: "k = length t" by simp
  have "occursAt t pat (length t) \<longleftrightarrow> pat = []"
    by (auto simp: occursAt_def)
  then show ?case using k by simp
next
  case (Suc n)
  then have lt: "k < length t" by simp
  then have d: "drop k t = t ! k # drop (Suc k) t"
    by (simp add: Cons_nth_drop_Suc)
  have p: "prefix pat (t ! k # drop (Suc k) t) \<longleftrightarrow> occursAt t pat k"
    using prefix_occursAt [of k t pat] lt d by simp
  have r: "[k..<Suc (length t)] = k # [Suc k..<Suc (length t)]"
    using lt by (simp add: upt_conv_Cons del: upt_Suc)
  have ih: "scanFrom (drop (Suc k) t) pat (Suc k) =
       (case find (occursAt t pat) [Suc k..<Suc (length t)] of None \<Rightarrow> -1 | Some i \<Rightarrow> int i)"
    using Suc.hyps(1) [of "Suc k"] Suc.hyps(2) lt by simp
  show ?case unfolding d r using p ih by simp
qed

lemma indexOf_find:
  "indexOf t pat pos =
     (let k = nat (min (max pos 0) (int (length t)))
      in case find (occursAt t pat) [k..<Suc (length t)] of None \<Rightarrow> -1 | Some i \<Rightarrow> int i)"
proof -
  define k where "k = nat (min (max pos 0) (int (length t)))"
  have "k \<le> length t" by (simp add: k_def)
  then show ?thesis using scanFrom_find [of k t pat]
    by (simp add: indexOf_def Let_def k_def)
qed

lemma find_SomeD: "find P xs = Some x \<Longrightarrow> P x \<and> x \<in> set xs"
  by (induction xs) (auto split: if_splits)

lemma indexOf_cases:
  obtains (missing) "indexOf t pat pos = -1"
      and "\<forall>i. occursAt t pat i \<longrightarrow> int i < min (max pos 0) (int (length t))"
  | (found) i where "indexOf t pat pos = int i" and "occursAt t pat i"
      and "min (max pos 0) (int (length t)) \<le> int i"
      and "\<forall>j. occursAt t pat j \<and> min (max pos 0) (int (length t)) \<le> int j \<longrightarrow> i \<le> j"
proof -
  define k where "k = nat (min (max pos 0) (int (length t)))"
  define rng where "rng = [k..<Suc (length t)]"
  have mem: "i \<in> set rng \<longleftrightarrow> k \<le> i \<and> i \<le> length t" for i
    by (auto simp: rng_def simp del: upt_Suc)
  have occ: "occursAt t pat i \<Longrightarrow> i \<le> length t" for i
    by (simp add: occursAt_def)
  have kk: "int k = min (max pos 0) (int (length t))" by (simp add: k_def)
  have e: "indexOf t pat pos =
      (case find (occursAt t pat) rng of None \<Rightarrow> -1 | Some i \<Rightarrow> int i)"
    by (simp add: indexOf_find k_def rng_def Let_def del: upt_Suc)
  show thesis
  proof (cases "find (occursAt t pat) rng")
    case None
    then have "\<forall>i. occursAt t pat i \<longrightarrow> i < k"
      using mem occ by (fastforce simp: find_None_iff)
    then have "\<forall>i. occursAt t pat i \<longrightarrow> int i < min (max pos 0) (int (length t))"
      using kk by (metis of_nat_less_iff)
    moreover have "indexOf t pat pos = -1" using e None by simp
    ultimately show thesis by (rule missing [rotated])
  next
    case (Some i)
    then obtain n where n: "n < length rng" "occursAt t pat (rng ! n)" "i = rng ! n"
        "\<forall>j<n. \<not> occursAt t pat (rng ! j)"
      unfolding find_Some_iff by blast
    have rn: "rng ! m = k + m" if "m < length rng" for m
      using that by (simp add: rng_def del: upt_Suc)
    have len: "length rng = Suc (length t) - k" by (simp add: rng_def del: upt_Suc)
    have i1: "indexOf t pat pos = int i" using e Some by simp
    have i2: "occursAt t pat i" using n by simp
    have i3: "k \<le> i" using n rn by simp
    have i4: "i \<le> j" if "occursAt t pat j" "k \<le> j" for j
    proof (rule ccontr)
      assume "\<not> i \<le> j"
      then have "j - k < n" using n rn that by simp
      moreover have "rng ! (j - k) = j" using that occ [of j] rn [of "j - k"] len by simp
      ultimately show False using n(4) that by auto
    qed
    show thesis
    proof (rule found [OF i1 i2])
      show "min (max pos 0) (int (length t)) \<le> int i" using i3 kk by linarith
      show "\<forall>j. occursAt t pat j \<and> min (max pos 0) (int (length t)) \<le> int j \<longrightarrow> i \<le> j"
        using i4 kk by (metis of_nat_le_iff)
    qed
  qed
qed

lemma indexOf_sound:
  assumes "indexOf t pat pos \<noteq> -1"
  shows "occursAt t pat (nat (indexOf t pat pos)) \<and> 0 \<le> indexOf t pat pos
         \<and> min (max pos 0) (int (length t)) \<le> indexOf t pat pos"
  by (rule indexOf_cases [of t pat pos]) (use assms in auto)

lemma indexOf_complete:
  assumes "occursAt t pat i" and "min (max pos 0) (int (length t)) \<le> int i"
  shows "indexOf t pat pos \<noteq> -1"
  by (rule indexOf_cases [of t pat pos]) (use assms in auto)

lemma sublist_occursAt: "sublist pat t \<longleftrightarrow> (\<exists>i. occursAt t pat i)"
proof
  assume "sublist pat t"
  then obtain ps ss where "t = ps @ pat @ ss" by (auto simp: sublist_def)
  then have "occursAt t pat (length ps)" by (simp add: occursAt_def)
  then show "\<exists>i. occursAt t pat i" ..
next
  assume "\<exists>i. occursAt t pat i"
  then obtain i where i: "occursAt t pat i" ..
  then have "t = take i t @ pat @ drop (length pat) (drop i t)"
    by (metis append_take_drop_id occursAt_def)
  then show "sublist pat t" by (auto simp: sublist_def)
qed

lemma step_found:
  assumes "sublist s t"
  shows "\<exists>a. findChunkOffsets_step t ov s p = (int a, int a + int (length s)) \<and> occursAt t s a"
proof -
  from assms obtain i where i: "occursAt t s i" by (auto simp: sublist_occursAt)
  have z: "indexOf t s 0 \<noteq> -1" using indexOf_complete [OF i, of 0] by simp
  define ss where "ss = max 0 (p - ov)"
  define r where "r = (if indexOf t s ss = -1 \<and> ss > 0 then indexOf t s 0 else indexOf t s ss)"
  have "r = indexOf t s ss \<or> r = indexOf t s 0" by (simp add: r_def)
  moreover have rn: "r \<noteq> -1"
  proof (cases "ss > 0")
    case True
    then show ?thesis using z by (simp add: r_def)
  next
    case False
    then have "ss = 0" by (simp add: ss_def)
    then show ?thesis using z by (simp add: r_def)
  qed
  ultimately have o: "occursAt t s (nat r)" and nn: "0 \<le> r"
    using indexOf_sound [of t s ss] indexOf_sound [of t s 0] by auto
  then have le: "r + int (length s) \<le> int (length t)" unfolding occursAt_def by arith
  have "findChunkOffsets_step t ov s p = (r, min (r + int (length s)) (int (length t)))"
    using rn unfolding r_def ss_def findChunkOffsets_step_def Let_def by (simp split: if_splits)
  then have "findChunkOffsets_step t ov s p = (int (nat r), int (nat r) + int (length s))"
    using le nn by simp
  with o show ?thesis by blast
qed

lemma indexOf_firstOccurrenceFrom:
  assumes "0 \<le> pos" and "pos \<le> int (length t) \<or> pat \<noteq> []"
  shows "indexOf t pat pos = (case firstOccurrenceFrom t pat pos of None \<Rightarrow> -1 | Some i \<Rightarrow> i)"
proof (cases "pos \<le> int (length t)")
  case True
  then have k: "nat (min (max pos 0) (int (length t))) = nat pos" using assms(1) by simp
  show ?thesis unfolding indexOf_find Let_def k firstOccurrenceFrom_def
    by (simp del: upt_Suc split: option.splits)
next
  case False
  then have ne: "pat \<noteq> []" using assms(2) by simp
  have k: "nat (min (max pos 0) (int (length t))) = length t" using False by simp
  have "\<not> occursAt t pat (length t)" using ne by (simp add: occursAt_def)
  then have "indexOf t pat pos = -1" by (simp add: indexOf_find k Let_def)
  moreover have "[nat pos..<Suc (length t)] = []" using False by simp
  then have "firstOccurrenceFrom t pat pos = None"
    by (simp add: firstOccurrenceFrom_def del: upt_Suc)
  ultimately show ?thesis by simp
qed

lemma step_refines:
  assumes "(p \<le> int (length t) \<and> 0 \<le> ov) \<or> c \<noteq> []"
  shows "findChunkOffsets_step t ov c p = resolve_step t ov c p"
proof -
  define ss where "ss = max 0 (p - ov)"
  have ss0: "0 \<le> ss" by (simp add: ss_def)
  have "ss \<le> int (length t) \<or> c \<noteq> []" using assms by (auto simp: ss_def)
  then have a: "indexOf t c ss = (case firstOccurrenceFrom t c ss of None \<Rightarrow> -1 | Some i \<Rightarrow> i)"
    using indexOf_firstOccurrenceFrom [OF ss0] by simp
  have b: "indexOf t c 0 = (case firstOccurrenceFrom t c 0 of None \<Rightarrow> -1 | Some i \<Rightarrow> i)"
    using indexOf_firstOccurrenceFrom [of 0 t c] by simp
  have nn: "firstOccurrenceFrom t c q = Some i \<Longrightarrow> i \<noteq> -1" for q i
    by (auto simp: firstOccurrenceFrom_def)
  show ?thesis
    unfolding findChunkOffsets_step_def resolve_step_def Let_def ss_def [symmetric] a b
    using nn by (auto split: option.splits)
qed

lemma step_snd_le: "snd (findChunkOffsets_step t ov c p) \<le> int (length t)"
  by (simp add: findChunkOffsets_step_def Let_def)

lemma loop_refines:
  "p \<le> int (length t) \<Longrightarrow> 0 \<le> ov \<or> [] \<notin> set cs \<Longrightarrow>
     findChunkOffsets_loop t ov cs p [] = resolve_from t ov cs p"
proof (induction cs arbitrary: p)
  case Nil
  show ?case by simp
next
  case (Cons c cs)
  have s: "findChunkOffsets_step t ov c p = resolve_step t ov c p"
    using Cons.prems by (intro step_refines) auto
  have "findChunkOffsets_loop t ov cs (snd (findChunkOffsets_step t ov c p)) []
          = resolve_from t ov cs (snd (findChunkOffsets_step t ov c p))"
    using Cons.prems(2) by (intro Cons.IH step_snd_le) auto
  then show ?case unfolding findChunkOffsets_loop_Cons using s by (simp add: Let_def)
qed

lemma chunkDocument_body_nth:
  assumes "chunkDocument_body doc cfg splitText = Inr cs" and "i < length cs"
  shows "\<exists>rawSplits. splitText (Document.content doc) = Inr rawSplits \<and>
           trim (Document.content doc) \<noteq> [] \<and>
           length cs = length (nonBlankSplits rawSplits) \<and>
           cs ! i = makeChunk (Document.content doc) (Document.filePath doc)
                      (nonBlankSplits rawSplits ! i)
                      (findChunkOffsets (Document.content doc) (nonBlankSplits rawSplits)
                         (chunkOverlap cfg) ! i) (int i)"
proof -
  from chunkDocument_body_cases [OF assms(1)] assms(2)
  obtain rawSplits where r: "trim (Document.content doc) \<noteq> []"
      "splitText (Document.content doc) = Inr rawSplits"
      "cs = loopChunks (Document.content doc) (Document.filePath doc)
                  (nonBlankSplits rawSplits)
                  (findChunkOffsets (Document.content doc) (nonBlankSplits rawSplits)
                     (chunkOverlap cfg)) 0"
    by auto
  have len: "length cs = length (nonBlankSplits rawSplits)"
    using r(3) by (simp add: loopChunks_length)
  have "cs ! i = makeChunk (Document.content doc) (Document.filePath doc)
                      (nonBlankSplits rawSplits ! i)
                      (findChunkOffsets (Document.content doc) (nonBlankSplits rawSplits)
                         (chunkOverlap cfg) ! i) (0 + int i)"
    unfolding r(3) using assms(2) len
    by (intro loopChunks_nth) (simp_all add: findChunkOffsets_length)
  with r len show ?thesis by auto
qed

lemma findChunkOffsets_nonneg:
  "i < length fragments \<Longrightarrow> 0 \<le> fst (findChunkOffsets t fragments ov ! i)"
  using findChunkOffsets_loop_nonneg [of "findChunkOffsets t fragments ov ! i" t ov fragments 0]
  by (simp add: findChunkOffsets_def findChunkOffsets_loop_length)

lemma makeChunk_content: "Chunk.content (makeChunk t path s off idx) = trim s"
  by (simp add: makeChunk_def Let_def)


lemma findChunkOffsets_loop_nth_step:
  "i < length fragments \<Longrightarrow>
     \<exists>q. findChunkOffsets_loop t ov fragments p [] ! i = findChunkOffsets_step t ov (fragments ! i) q"
proof (induction fragments arbitrary: p i)
  case Nil
  then show ?case by simp
next
  case (Cons c fragments)
  show ?case
  proof (cases i)
    case 0
    then show ?thesis unfolding findChunkOffsets_loop_Cons by auto
  next
    case (Suc j)
    then show ?thesis unfolding findChunkOffsets_loop_Cons
      using Cons.IH [of j "snd (findChunkOffsets_step t ov c p)"] Cons.prems by simp
  qed
qed

lemma findChunkOffsets_nth_step:
  "i < length fragments \<Longrightarrow>
     \<exists>q. findChunkOffsets t fragments ov ! i = findChunkOffsets_step t ov (fragments ! i) q"
  unfolding findChunkOffsets_def by (rule findChunkOffsets_loop_nth_step)

lemma trim_decomp:
  assumes "trim s \<noteq> []"
  shows "s = takeWhile isWhitespace s @ trim s @ rev (takeWhile isWhitespace (rev s))"
proof -
  define d where "d = dropWhile isWhitespace s"
  have s: "s = takeWhile isWhitespace s @ d" by (simp add: d_def)
  have t: "trim s = rev (dropWhile isWhitespace (rev d))"
    by (simp add: trim_def trimEnd_def trimStart_def d_def)
  have dne: "d \<noteq> []" using assms t by auto
  then have "\<not> isWhitespace (hd d)" unfolding d_def by (rule hd_dropWhile)
  moreover have "hd d \<in> set (rev d)" using dne by simp
  ultimately have tw: "takeWhile isWhitespace (rev d @ rev (takeWhile isWhitespace s))
      = takeWhile isWhitespace (rev d)"
    by (intro takeWhile_append1) auto
  have "rev s = rev d @ rev (takeWhile isWhitespace s)"
    using s by (metis rev_append)
  then have e: "takeWhile isWhitespace (rev s) = takeWhile isWhitespace (rev d)"
    using tw by simp
  have "rev d = takeWhile isWhitespace (rev d) @ dropWhile isWhitespace (rev d)" by simp
  then have "d = rev (dropWhile isWhitespace (rev d)) @ rev (takeWhile isWhitespace (rev d))"
    by (metis rev_append rev_rev_ident)
  then have "d = trim s @ rev (takeWhile isWhitespace (rev s))" using t e by simp
  then show ?thesis using s by metis
qed

lemma leadingTrim_length:
  "int (length s) - int (length (trimStart s)) = int (length (takeWhile isWhitespace s))"
proof -
  have "length s = length (takeWhile isWhitespace s) + length (dropWhile isWhitespace s)"
    by (metis length_append takeWhile_dropWhile_id)
  then show ?thesis by (simp add: trimStart_def)
qed

lemma trailingTrim_length:
  "int (length s) - int (length (trimEnd s)) = int (length (takeWhile isWhitespace (rev s)))"
proof -
  have "length (rev s) = length (takeWhile isWhitespace (rev s)) + length (dropWhile isWhitespace (rev s))"
    by (metis length_append takeWhile_dropWhile_id)
  then show ?thesis by (simp add: trimEnd_def)
qed

lemma trim_idem: "trim (trim s) = trim s"
proof (cases "trim s = []")
  case True
  show ?thesis unfolding True by (simp add: trim_def trimEnd_def trimStart_def)
next
  case False
  define d where "d = dropWhile isWhitespace s"
  define m where "m = dropWhile isWhitespace (rev d)"
  have t: "trim s = rev m" by (simp add: trim_def trimEnd_def trimStart_def d_def m_def)
  have mne: "m \<noteq> []" using False t by simp
  have dne: "d \<noteq> []" using mne m_def by auto
  have h1: "\<not> isWhitespace (hd m)" using mne unfolding m_def by (rule hd_dropWhile)
  have h2: "\<not> isWhitespace (hd d)" using dne unfolding d_def by (rule hd_dropWhile)
  have "rev d = takeWhile isWhitespace (rev d) @ m" by (simp add: m_def)
  then have "d = rev m @ rev (takeWhile isWhitespace (rev d))"
    by (metis rev_append rev_rev_ident)
  then have "hd (rev m) = hd d" using mne by (metis hd_append2 rev_is_Nil_conv)
  then have h3: "\<not> isWhitespace (hd (rev m))" using h2 by simp
  have a: "dropWhile isWhitespace (rev m) = rev m"
    using h3 mne by (cases "rev m") auto
  have b: "dropWhile isWhitespace m = m"
    using h1 mne by (cases m) auto
  show ?thesis unfolding t by (simp add: trim_def trimEnd_def trimStart_def a b)
qed

lemma makeChunk_slice:
  assumes "occursAt t s a" and "trim s \<noteq> []"
  shows "slice t (ChunkMetadata.startOffset (Chunk.metadata (makeChunk t path s (int a, int a + int (length s)) idx)))
                 (ChunkMetadata.endOffset (Chunk.metadata (makeChunk t path s (int a, int a + int (length s)) idx)))
           = trim s"
proof -
  define l where "l = takeWhile isWhitespace s"
  define r where "r = rev (takeWhile isWhitespace (rev s))"
  have s: "s = l @ trim s @ r" using trim_decomp [OF assms(2)] by (simp add: l_def r_def)
  have ls: "length s = length l + length (trim s) + length r"
    using s by (metis add.assoc length_append)
  have lead: "int (length s) - int (length (trimStart s)) = int (length l)"
    by (simp add: leadingTrim_length l_def)
  have trail: "int (length s) - int (length (trimEnd s)) = int (length r)"
    by (simp add: trailingTrim_length r_def)
  have le: "a + length s \<le> length t" and tk: "take (length s) (drop a t) = s"
    using assms(1) by (simp_all add: occursAt_def)
  have st: "ChunkMetadata.startOffset (Chunk.metadata (makeChunk t path s (int a, int a + int (length s)) idx))
              = int (a + length l)"
    using le ls unfolding makeChunk_def Let_def lead trail by simp
  have en: "ChunkMetadata.endOffset (Chunk.metadata (makeChunk t path s (int a, int a + int (length s)) idx))
              = int (a + length l + length (trim s))"
    using le ls unfolding makeChunk_def Let_def lead trail by simp
  have "take (length (trim s)) (drop (a + length l) t)
          = take (length (trim s)) (drop (length l) (drop a t))"
    by (simp add: add.commute)
  also have "\<dots> = take (length (trim s)) (drop (length l) (take (length s) (drop a t)))"
    using ls by (simp add: drop_take)
  also have "\<dots> = take (length (trim s)) (drop (length l) (l @ trim s @ r))"
    using tk s by simp
  also have "\<dots> = trim s" by simp
  finally have "take (length (trim s)) (drop (a + length l) t) = trim s" .
  moreover have "nat (int (a + length l + length (trim s)) - int (a + length l)) = length (trim s)"
    by simp
  moreover have "nat (int (a + length l)) = a + length l" by simp
  ultimately show ?thesis unfolding st en slice_def by (simp only:)
qed

lemma findChunkOffsets_loop_nth_Suc:
  "Suc i < length fragments \<Longrightarrow>
     findChunkOffsets_loop t ov fragments p [] ! Suc i =
       findChunkOffsets_step t ov (fragments ! Suc i)
         (snd (findChunkOffsets_loop t ov fragments p [] ! i))"
proof (induction fragments arbitrary: p i)
  case Nil
  then show ?case by simp
next
  case (Cons c fragments)
  then obtain c' rest where f: "fragments = c' # rest" by (cases fragments) auto
  show ?case
  proof (cases i)
    case 0
    then show ?thesis unfolding f findChunkOffsets_loop_Cons by simp
  next
    case (Suc j)
    then show ?thesis
      using Cons.IH [of j "snd (findChunkOffsets_step t ov c p)"] Cons.prems
      unfolding findChunkOffsets_loop_Cons [of t ov c fragments] by simp
  qed
qed

lemma findChunkOffsets_nth_Suc:
  "Suc i < length fragments \<Longrightarrow>
     findChunkOffsets t fragments ov ! Suc i =
       findChunkOffsets_step t ov (fragments ! Suc i) (snd (findChunkOffsets t fragments ov ! i))"
  unfolding findChunkOffsets_def by (rule findChunkOffsets_loop_nth_Suc)

lemma step_snd: 
  "snd (findChunkOffsets_step t ov c p)
     = min (fst (findChunkOffsets_step t ov c p) + int (length c)) (int (length t))"
  by (simp add: findChunkOffsets_step_def Let_def)

lemma step_anchor:
  assumes "c \<noteq> []"
  shows "p - ov \<le> fst (findChunkOffsets_step t ov c p) \<or>
         (indexOf t c 0 \<noteq> -1 \<and> fst (findChunkOffsets_step t ov c p) = indexOf t c 0)"
proof -
  define ss where "ss = max 0 (p - ov)"
  have ss: "0 \<le> ss" "p - ov \<le> ss" by (simp_all add: ss_def)
  have e: "fst (findChunkOffsets_step t ov c p) =
      (let found = indexOf t c ss;
           retried = (if found = -1 \<and> ss > 0 then indexOf t c 0 else found)
       in if retried = -1 then ss else retried)"
    by (simp add: findChunkOffsets_step_def Let_def ss_def)
  show ?thesis
  proof (cases "indexOf t c ss = -1")
    case True
    then show ?thesis using e ss by (auto simp: Let_def)
  next
    case False
    then have "occursAt t c (nat (indexOf t c ss))" and nn: "0 \<le> indexOf t c ss"
      and lo: "min (max ss 0) (int (length t)) \<le> indexOf t c ss"
      using indexOf_sound [of t c ss] by auto
    then have "nat (indexOf t c ss) + length c \<le> length t" by (simp add: occursAt_def)
    moreover have "0 < length c" using assms by simp
    ultimately have "indexOf t c ss < int (length t)" using nn by linarith
    with lo ss have "ss \<le> indexOf t c ss" by linarith
    moreover have "fst (findChunkOffsets_step t ov c p) = indexOf t c ss"
      using e False by (simp add: Let_def)
    ultimately show ?thesis using ss by simp
  qed
qed

lemma makeChunk_end_le:
  assumes "snd off = min (fst off + int (length s)) (int (length t))"
  shows "ChunkMetadata.endOffset (Chunk.metadata (makeChunk t path s off idx)) \<le> snd off"
proof -
  have a: "length (trimStart s) \<le> length s"
    by (simp add: trimStart_def length_dropWhile_le)
  have "length (dropWhile isWhitespace (rev s)) \<le> length (rev s)"
    by (rule length_dropWhile_le)
  then have b: "length (trimEnd s) \<le> length s" by (simp add: trimEnd_def)
  have "ChunkMetadata.endOffset (Chunk.metadata (makeChunk t path s off idx))
      = max (min (fst off + (int (length s) - int (length (trimStart s)))) (int (length t)))
            (min (snd off - (int (length s) - int (length (trimEnd s)))) (int (length t)))"
    by (simp add: makeChunk_def Let_def)
  then show ?thesis using a b assms by arith
qed

lemma makeChunk_start:
  "ChunkMetadata.startOffset (Chunk.metadata (makeChunk t path s off idx))
     = min (fst off + (int (length s) - int (length (trimStart s)))) (int (length t))"
  by (simp add: makeChunk_def Let_def)

lemma chunkDocument_given:
  "chunkDocument lib doc cfg (Some given) = chunkDocument_body doc cfg given"
  by (simp add: chunkDocument_def)

lemma chunkDocument_default:
  "chunkDocument lib doc cfg None =
     (if chunkSize cfg \<le> chunkOverlap cfg
      then Inl (ConfigurationError ''Cannot have chunkOverlap >= chunkSize'')
      else chunkDocument_body doc cfg (lib cfg))"
  by (simp add: chunkDocument_def createMarkdownSplitter_def)

lemma chunkDocument_Inr_body:
  assumes "chunkDocument lib doc cfg sp = Inr cs"
  shows "chunkDocument_body doc cfg (splitterUsed lib cfg sp) = Inr cs"
proof (cases sp)
  case None
  then show ?thesis using assms
    by (simp add: chunkDocument_default splitterUsed_def split: if_splits)
next
  case (Some given)
  then show ?thesis using assms by (simp add: chunkDocument_given splitterUsed_def)
qed


lemma chunkDocument_nth:
  assumes "chunkDocument lib doc cfg sp = Inr cs" and "i < length cs"
  shows "\<exists>rawSplits. splitterUsed lib cfg sp (Document.content doc) = Inr rawSplits \<and>
           trim (Document.content doc) \<noteq> [] \<and>
           length cs = length (nonBlankSplits rawSplits) \<and>
           cs ! i = makeChunk (Document.content doc) (Document.filePath doc)
                      (nonBlankSplits rawSplits ! i)
                      (findChunkOffsets (Document.content doc) (nonBlankSplits rawSplits)
                         (chunkOverlap cfg) ! i) (int i)"
  by (rule chunkDocument_body_nth [OF chunkDocument_Inr_body [OF assms(1)] assms(2)])

lemma step_fst_exact:
  "fst (findChunkOffsets_step t ov c p) =
     (if indexOf t c (max 0 (p - ov)) \<noteq> -1 then indexOf t c (max 0 (p - ov))
      else if indexOf t c 0 \<noteq> -1 then indexOf t c 0
      else max 0 (p - ov))"
proof -
  define ss where "ss = max 0 (p - ov)"
  have e: "fst (findChunkOffsets_step t ov c p) =
      (let found = indexOf t c ss;
           retried = (if found = -1 \<and> ss > 0 then indexOf t c 0 else found)
       in if retried = -1 then ss else retried)"
    by (simp add: findChunkOffsets_step_def Let_def ss_def)
  have "ss = 0 \<or> 0 < ss" by (auto simp: ss_def)
  then have "fst (findChunkOffsets_step t ov c p) =
     (if indexOf t c ss \<noteq> -1 then indexOf t c ss
      else if indexOf t c 0 \<noteq> -1 then indexOf t c 0
      else ss)"
    unfolding e Let_def by auto
  then show ?thesis by (simp only: ss_def)
qed

lemma indexOf_found_end:
  assumes "indexOf t c pos \<noteq> -1"
  shows "0 \<le> indexOf t c pos \<and> indexOf t c pos + int (length c) \<le> int (length t)"
proof -
  from indexOf_sound [OF assms] have "occursAt t c (nat (indexOf t c pos))"
    and "0 \<le> indexOf t c pos" by auto
  then show ?thesis unfolding occursAt_def by arith
qed

lemma nonBlankSplits_no_empty: "[] \<notin> set (nonBlankSplits rawSplits)"
  by (auto simp: nonBlankSplits_def trim_def trimStart_def trimEnd_def)

section \<open>Concrete runs of \<open>chunkDocument\<close>\<close>

text \<open>
  The text \<open>A. B. C.\<close> with the fragments \<open>A.\<close>, a blank one, \<open> B.\<close> and \<open>C.\<close>, passed
  by the caller: the blank fragment is dropped, the second chunk is trimmed and its
  offsets are moved.
\<close>

lemma example_run:
  "chunkDocument lib (exampleDocument ''A. B. C.'') \<lparr> chunkSize = 4, chunkOverlap = 0 \<rparr>
     (Some (fixedSplitter [''A.'', ''   '', '' B.'', ''C.'']))
   = Inr [exampleChunk ''A.'' 0 0 2, exampleChunk ''B.'' 1 3 5, exampleChunk ''C.'' 2 6 8]"
  unfolding chunkDocument_given by code_simp


text \<open>
  The text \<open>a  b c\<close> (two spaces after \<open>a\<close>) with the fragments \<open>a b\<close>, whose whitespace
  the splitter has normalised, and \<open>c\<close>: the first fragment does not occur in the text
  and is placed at \<open>searchStart\<close>; the second is found where it lies.
\<close>

lemma example_run_placeholder:
  "chunkDocument lib (exampleDocument ''a  b c'') \<lparr> chunkSize = 4, chunkOverlap = 0 \<rparr>
     (Some (fixedSplitter [''a b'', ''c'']))
   = Inr [exampleChunk ''a b'' 0 0 3, exampleChunk ''c'' 1 5 6]"
  unfolding chunkDocument_given by code_simp

text \<open>
  Three runs of the search. In \<open>b ab\<close> the fragment \<open>ab\<close> is found at 2, the search for
  \<open>b\<close> from 4 fails and the retry from 0 finds it at 0. In \<open>dcbabcd\<close> with overlap 2 every
  search starts two characters before the end of the fragment before and finds the
  next fragment in front of it. In \<open>ab ab\<close> the second \<open>ab\<close> is searched from 2 and found at
  3, not at its first occurrence 0.
\<close>

lemma example_run_retry:
  "chunkDocument lib (exampleDocument ''b ab'') \<lparr> chunkSize = 3, chunkOverlap = 0 \<rparr>
     (Some (fixedSplitter [''ab'', ''b'']))
   = Inr [exampleChunk ''ab'' 0 2 4, exampleChunk ''b'' 1 0 1]"
  unfolding chunkDocument_given by code_simp

lemma example_run_stepping_back:
  "chunkDocument lib (exampleDocument ''dcbabcd'') \<lparr> chunkSize = 3, chunkOverlap = 2 \<rparr>
     (Some (fixedSplitter [''a'', ''b'', ''c'', ''d'']))
   = Inr [exampleChunk ''a'' 0 3 4, exampleChunk ''b'' 1 2 3, exampleChunk ''c'' 2 1 2,
          exampleChunk ''d'' 3 0 1]"
  unfolding chunkDocument_given by code_simp

lemma example_run_repeated:
  "chunkDocument lib (exampleDocument ''ab ab'') \<lparr> chunkSize = 3, chunkOverlap = 0 \<rparr>
     (Some (fixedSplitter [''ab'', ''ab'']))
   = Inr [exampleChunk ''ab'' 0 0 2, exampleChunk ''ab'' 1 3 5]"
  unfolding chunkDocument_given by code_simp

section \<open>The offset resolver against its specification\<close>

text \<open>
  \<open>indexOf\<close> clamps its position to the length of the text and finds the empty string
  there. For an empty fragment under a negative overlap the position that is found can
  therefore lie below \<open>searchStart\<close>. \<open>chunkDocument\<close> drops the blank fragments before
  it resolves the offsets, so that no call of the program passes an empty fragment.
\<close>

lemma findChunkOffsets_empty_fragment_negative_overlap:
  "findChunkOffsets ''ab'' [''''] (-5) = [(2, 2)] \<and> resolve ''ab'' [''''] (-5) = [(0, 0)]"
  by code_simp

text \<open>
  C1: \<open>findChunkOffsets\<close> computes exactly what the specification's algorithm \<open>resolve\<close>
  computes: one pair per fragment, in order, with \<open>previousEnd\<close> starting at 0, the
  anchored search from \<open>max 0 (previousEnd - chunkOverlap)\<close>, the retry from 0 when that
  fails and \<open>searchStart > 0\<close>, the placeholder \<open>searchStart\<close>, and
  \<open>end = min (start + length) (length of the text)\<close>. This holds for every text and every
  list of fragments when the overlap is not negative or no fragment is empty, and, for
  every overlap, on the fragments that \<open>chunkDocument\<close> passes to it, the non-blank ones
  of any splitter output: that is, on every call that the program makes.
\<close>

theorem findChunkOffsets_refines_resolve:
  "(0 \<le> overlap \<or> [] \<notin> set fragments \<longrightarrow>
      findChunkOffsets original fragments overlap = resolve original fragments overlap) \<and>
   findChunkOffsets original (nonBlankSplits rawSplits) overlap
     = resolve original (nonBlankSplits rawSplits) overlap"
  by (simp add: findChunkOffsets_def resolve_def loop_refines nonBlankSplits_no_empty)

theorem findChunkOffsets_refines_resolve_witness:
  "findChunkOffsets ''# Intro text # Intro more'' [''# Intro'', ''text'', ''# Intro'', ''more''] 2
     = resolve ''# Intro text # Intro more'' [''# Intro'', ''text'', ''# Intro'', ''more''] 2
   \<and> resolve ''# Intro text # Intro more'' [''# Intro'', ''text'', ''# Intro'', ''more''] 2
     = [(0, 7), (8, 12), (13, 20), (21, 25)]"
proof -
  have h: "(0::int) \<le> 2 \<or> [] \<notin> set [''# Intro'', ''text'', ''# Intro'', ''more'']" by simp
  have v: "resolve ''# Intro text # Intro more'' [''# Intro'', ''text'', ''# Intro'', ''more''] 2
     = [(0, 7), (8, 12), (13, 20), (21, 25)]" by code_simp
  note t = findChunkOffsets_refines_resolve
             [of 2 "[''# Intro'', ''text'', ''# Intro'', ''more'']" "''# Intro text # Intro more''" "[]",
              THEN conjunct1, THEN mp, OF h]
  show ?thesis using t v by simp
qed

section \<open>The chunks of a document\<close>

text \<open>
  C6: every chunk that \<open>chunkDocument\<close> returns has
  \<open>0 \<le> startOffset \<le> endOffset \<le> length of the document's content\<close>, the content being
  the original, untrimmed text; for every document, every configuration, every splitter,
  whether the caller passes it or it is constructed by default.
\<close>

theorem chunkDocument_offsets_in_range:
  assumes "chunkDocument lib doc cfg sp = Inr cs" and "c \<in> set cs"
  shows "0 \<le> ChunkMetadata.startOffset (Chunk.metadata c) \<and>
         ChunkMetadata.startOffset (Chunk.metadata c) \<le> ChunkMetadata.endOffset (Chunk.metadata c) \<and>
         ChunkMetadata.endOffset (Chunk.metadata c) \<le> int (length (Document.content doc))"
proof -
  from assms(2) obtain i where i: "i < length cs" "c = cs ! i"
    by (auto simp: in_set_conv_nth)
  from chunkDocument_nth [OF assms(1) i(1)] obtain rawSplits where
    r: "length cs = length (nonBlankSplits rawSplits)"
       "cs ! i = makeChunk (Document.content doc) (Document.filePath doc)
                      (nonBlankSplits rawSplits ! i)
                      (findChunkOffsets (Document.content doc) (nonBlankSplits rawSplits)
                         (chunkOverlap cfg) ! i) (int i)"
    by auto
  have "0 \<le> fst (findChunkOffsets (Document.content doc) (nonBlankSplits rawSplits)
                         (chunkOverlap cfg) ! i)"
    using i(1) r(1) by (simp add: findChunkOffsets_nonneg)
  then show ?thesis unfolding i(2) r(2) by (simp add: makeChunk_bounds)
qed

theorem chunkDocument_offsets_in_range_witness:
  "0 \<le> ChunkMetadata.startOffset (Chunk.metadata (exampleChunk ''B.'' 1 3 5)) \<and>
   ChunkMetadata.startOffset (Chunk.metadata (exampleChunk ''B.'' 1 3 5))
     \<le> ChunkMetadata.endOffset (Chunk.metadata (exampleChunk ''B.'' 1 3 5)) \<and>
   ChunkMetadata.endOffset (Chunk.metadata (exampleChunk ''B.'' 1 3 5))
     \<le> int (length (Document.content (exampleDocument ''A. B. C.'')))"
proof -
  have m: "exampleChunk ''B.'' 1 3 5
     \<in> set [exampleChunk ''A.'' 0 0 2, exampleChunk ''B.'' 1 3 5, exampleChunk ''C.'' 2 6 8]"
    by simp
  show ?thesis by (rule chunkDocument_offsets_in_range [OF example_run m])
qed

text \<open>
  C4: a configuration with \<open>chunkOverlap \<ge> chunkSize\<close> makes the chunking fail with a
  configuration error before any document is processed. \<open>chunkDocuments\<close> constructs the
  splitter before its loop, and \<open>chunkDocument\<close>, called without a splitter, constructs
  it on entry, before it looks at the document; the constructor throws. The result is
  that error for every list of documents, every document and every splitting algorithm
  of the library; nothing is clamped.
\<close>

theorem invalid_overlap_rejected:
  assumes "chunkSize cfg \<le> chunkOverlap cfg"
  shows "chunkDocuments lib cfg docs
           = Inl (ConfigurationError ''Cannot have chunkOverlap >= chunkSize'') \<and>
         chunkDocument lib doc cfg None
           = Inl (ConfigurationError ''Cannot have chunkOverlap >= chunkSize'')"
  using assms by (simp add: chunkDocuments_def createMarkdownSplitter_def chunkDocument_default)

theorem invalid_overlap_rejected_witness:
  "chunkDocuments (\<lambda>cfg. fixedSplitter [''A.'', ''   '', '' B.'', ''C.'']) \<lparr> chunkSize = 2, chunkOverlap = 5 \<rparr>
       [exampleDocument ''A. B. C.'']
     = Inl (ConfigurationError ''Cannot have chunkOverlap >= chunkSize'') \<and>
   chunkDocument (\<lambda>cfg. fixedSplitter [''A.'', ''   '', '' B.'', ''C.'']) (exampleDocument ''A. B. C.'')
       \<lparr> chunkSize = 2, chunkOverlap = 5 \<rparr> None
     = Inl (ConfigurationError ''Cannot have chunkOverlap >= chunkSize'')"
proof -
  have h: "chunkSize \<lparr> chunkSize = 2, chunkOverlap = 5 \<rparr> \<le> chunkOverlap \<lparr> chunkSize = 2, chunkOverlap = 5 \<rparr>"
    by simp
  show ?thesis by (rule invalid_overlap_rejected [OF h])
qed




text \<open>
  C2, as the specification states it: for every chunk, the slice
  \<open>content[startOffset:endOffset]\<close> of the document, trimmed, is the chunk's content. This
  fails for a fragment that does not occur in the document, the case of the resolver's
  placeholder: in the run on \<open>a  b c\<close> above, the chunk \<open>a b\<close> gets the offsets 0 and 3, and
  the slice, trimmed, is \<open>a\<close>.
\<close>

theorem chunk_content_not_slice_counterexample:
  "chunkDocument (\<lambda>cfg. fixedSplitter []) (exampleDocument ''a  b c'')
     \<lparr> chunkSize = 4, chunkOverlap = 0 \<rparr> (Some (fixedSplitter [''a b'', ''c'']))
     = Inr [exampleChunk ''a b'' 0 0 3, exampleChunk ''c'' 1 5 6] \<and>
   trim (slice (Document.content (exampleDocument ''a  b c''))
          (ChunkMetadata.startOffset (Chunk.metadata (exampleChunk ''a b'' 0 0 3)))
          (ChunkMetadata.endOffset (Chunk.metadata (exampleChunk ''a b'' 0 0 3)))) = ''a'' \<and>
   Chunk.content (exampleChunk ''a b'' 0 0 3) \<noteq> ''a''"
proof (intro conjI)
  show "chunkDocument (\<lambda>cfg. fixedSplitter []) (exampleDocument ''a  b c'')
     \<lparr> chunkSize = 4, chunkOverlap = 0 \<rparr> (Some (fixedSplitter [''a b'', ''c'']))
     = Inr [exampleChunk ''a b'' 0 0 3, exampleChunk ''c'' 1 5 6]"
    by (rule example_run_placeholder)
  show "trim (slice (Document.content (exampleDocument ''a  b c''))
          (ChunkMetadata.startOffset (Chunk.metadata (exampleChunk ''a b'' 0 0 3)))
          (ChunkMetadata.endOffset (Chunk.metadata (exampleChunk ''a b'' 0 0 3)))) = ''a''"
    by code_simp
  show "Chunk.content (exampleChunk ''a b'' 0 0 3) \<noteq> ''a''"
    by code_simp
qed

text \<open>
  C2, amended: for every chunk that \<open>chunkDocument\<close> returns and whose own raw fragment
  occurs in the document as a contiguous substring, the slice
  \<open>content[startOffset:endOffset]\<close> of the document, trimmed, is the chunk's content (the
  trimmed fragment); what the other fragments are does not matter.
\<close>

theorem chunk_content_is_slice:
  assumes "chunkDocument lib doc cfg sp = Inr cs"
      and "splitterUsed lib cfg sp (Document.content doc) = Inr rawSplits"
      and "i < length cs"
      and "sublist (nonBlankSplits rawSplits ! i) (Document.content doc)"
  shows "trim (slice (Document.content doc)
                 (ChunkMetadata.startOffset (Chunk.metadata (cs ! i)))
                 (ChunkMetadata.endOffset (Chunk.metadata (cs ! i))))
           = Chunk.content (cs ! i) \<and>
         Chunk.content (cs ! i) = trim (nonBlankSplits rawSplits ! i)"
proof -
  define splits where "splits = nonBlankSplits rawSplits"
  define offs where "offs = findChunkOffsets (Document.content doc) splits (chunkOverlap cfg)"
  from chunkDocument_nth [OF assms(1) assms(3)] assms(2)
  have len: "length cs = length splits"
    and ci: "cs ! i = makeChunk (Document.content doc) (Document.filePath doc)
                      (splits ! i) (offs ! i) (int i)"
    by (auto simp: splits_def offs_def)
  have nb: "trim (splits ! i) \<noteq> []"
    using assms(3) len nth_mem [of i splits] by (auto simp: splits_def nonBlankSplits_def)
  have sub: "sublist (splits ! i) (Document.content doc)" using assms(4) by (simp add: splits_def)
  have "\<exists>p. offs ! i = findChunkOffsets_step (Document.content doc) (chunkOverlap cfg) (splits ! i) p"
    using assms(3) len unfolding offs_def by (intro findChunkOffsets_nth_step) simp
  then obtain p where p: "offs ! i = findChunkOffsets_step (Document.content doc) (chunkOverlap cfg) (splits ! i) p" ..
  from step_found [OF sub, of "chunkOverlap cfg" p] p obtain a where
    a: "offs ! i = (int a, int a + int (length (splits ! i)))"
       "occursAt (Document.content doc) (splits ! i) a"
    by auto
  have "slice (Document.content doc) (ChunkMetadata.startOffset (Chunk.metadata (cs ! i)))
                 (ChunkMetadata.endOffset (Chunk.metadata (cs ! i))) = trim (splits ! i)"
    unfolding ci a(1) by (rule makeChunk_slice [OF a(2) nb])
  moreover have "Chunk.content (cs ! i) = trim (splits ! i)"
    unfolding ci by (simp add: makeChunk_content)
  ultimately show ?thesis by (simp add: trim_idem splits_def)
qed

theorem chunk_content_is_slice_witness:
  "trim (slice (Document.content (exampleDocument ''a  b c''))
          (ChunkMetadata.startOffset (Chunk.metadata ([exampleChunk ''a b'' 0 0 3, exampleChunk ''c'' 1 5 6] ! 1)))
          (ChunkMetadata.endOffset (Chunk.metadata ([exampleChunk ''a b'' 0 0 3, exampleChunk ''c'' 1 5 6] ! 1))))
     = Chunk.content ([exampleChunk ''a b'' 0 0 3, exampleChunk ''c'' 1 5 6] ! 1) \<and>
   Chunk.content ([exampleChunk ''a b'' 0 0 3, exampleChunk ''c'' 1 5 6] ! 1)
     = trim (nonBlankSplits [''a b'', ''c''] ! 1) \<and>
   trim (nonBlankSplits [''a b'', ''c''] ! 1) = ''c'' \<and>
   \<not> sublist (nonBlankSplits [''a b'', ''c''] ! 0) (Document.content (exampleDocument ''a  b c''))"
proof -
  have f: "splitterUsed (\<lambda>cfg. fixedSplitter []) \<lparr> chunkSize = 4, chunkOverlap = 0 \<rparr>
       (Some (fixedSplitter [''a b'', ''c''])) (Document.content (exampleDocument ''a  b c''))
     = Inr [''a b'', ''c'']"
    by (simp add: fixedSplitter_def splitterUsed_def)
  have n: "1 < length [exampleChunk ''a b'' 0 0 3, exampleChunk ''c'' 1 5 6]" by simp
  have occ: "sublist (nonBlankSplits [''a b'', ''c''] ! 1) (Document.content (exampleDocument ''a  b c''))"
    by code_simp
  have v: "trim (nonBlankSplits [''a b'', ''c''] ! 1) = ''c''" by code_simp
  have other: "\<not> sublist (nonBlankSplits [''a b'', ''c''] ! 0) (Document.content (exampleDocument ''a  b c''))"
    by code_simp
  show ?thesis
    using chunk_content_is_slice [OF example_run_placeholder f n occ] v other by blast
qed

text \<open>
  C3, as the specification states it: with \<open>0 \<le> chunkOverlap < chunkSize\<close> the offsets
  never decrease in \<open>chunkIndex\<close> order, and a chunk's \<open>startOffset\<close> never lies more than
  \<open>chunkOverlap\<close> before the start of a prior chunk. This fails in two ways. The
  unanchored retry places a fragment at its first occurrence in the whole document: in
  the run on \<open>b ab\<close> with overlap 0 the starts are 2 and 0. And the anchored search alone,
  on fragments that lie in the document one after the other, can step back inside the
  overlap window at every fragment: in the run on \<open>dcbabcd\<close> with overlap 2 and the
  fragments \<open>a\<close>, \<open>b\<close>, \<open>c\<close>, \<open>d\<close> (which lie at 3, 4, 5, 6) the starts are 3, 2, 1, 0, so
  that the offsets decrease and the last chunk starts 3 before the first.
\<close>

theorem chunk_start_regression_counterexample:
  "chunkDocument (\<lambda>cfg. fixedSplitter []) (exampleDocument ''b ab'')
     \<lparr> chunkSize = 3, chunkOverlap = 0 \<rparr> (Some (fixedSplitter [''ab'', ''b'']))
     = Inr [exampleChunk ''ab'' 0 2 4, exampleChunk ''b'' 1 0 1] \<and>
   chunkDocument (\<lambda>cfg. fixedSplitter []) (exampleDocument ''dcbabcd'')
     \<lparr> chunkSize = 3, chunkOverlap = 2 \<rparr> (Some (fixedSplitter [''a'', ''b'', ''c'', ''d'']))
     = Inr [exampleChunk ''a'' 0 3 4, exampleChunk ''b'' 1 2 3, exampleChunk ''c'' 2 1 2,
            exampleChunk ''d'' 3 0 1]"
  using example_run_retry example_run_stepping_back by simp

text \<open>
  C3, amended: with \<open>0 \<le> chunkOverlap < chunkSize\<close>, for each chunk after the first, let
  \<open>previousEnd\<close> be the raw end of the fragment before it and
  \<open>searchStart = max 0 (previousEnd - chunkOverlap)\<close>. When the fragment occurs at or after
  \<open>searchStart\<close>, the chunk starts at the first such occurrence (plus the fragment's
  leading whitespace). When it does not, but occurs somewhere in the document (the
  retry), the chunk starts at its first occurrence in the document (plus the leading
  whitespace), wherever that is. In every case but the retry, the \<open>startOffset\<close> is at
  least the \<open>endOffset\<close> of the chunk before minus \<open>chunkOverlap\<close>, hence never more than
  \<open>chunkOverlap\<close> before the start of the chunk before; the bound is between consecutive
  chunks only.
\<close>

theorem chunk_start_regression_bound:
  assumes "0 \<le> chunkOverlap cfg" and "chunkOverlap cfg < chunkSize cfg"
      and "chunkDocument lib doc cfg sp = Inr cs"
      and "splitterUsed lib cfg sp (Document.content doc) = Inr rawSplits"
      and "Suc i < length cs"
  shows "let original = Document.content doc;
             fragment = nonBlankSplits rawSplits ! Suc i;
             previousEnd = snd (findChunkOffsets original (nonBlankSplits rawSplits)
                                  (chunkOverlap cfg) ! i);
             searchStart = max 0 (previousEnd - chunkOverlap cfg);
             leading = int (length fragment) - int (length (trimStart fragment));
             retried = (indexOf original fragment searchStart = -1
                          \<and> indexOf original fragment 0 \<noteq> -1);
             start = ChunkMetadata.startOffset (Chunk.metadata (cs ! Suc i))
         in (retried \<longrightarrow> start = indexOf original fragment 0 + leading) \<and>
            (\<not> retried \<longrightarrow>
               ChunkMetadata.endOffset (Chunk.metadata (cs ! i)) - chunkOverlap cfg \<le> start \<and>
               ChunkMetadata.startOffset (Chunk.metadata (cs ! i)) - chunkOverlap cfg \<le> start) \<and>
            (indexOf original fragment searchStart \<noteq> -1 \<longrightarrow>
               start = indexOf original fragment searchStart + leading) \<and>
            ChunkMetadata.endOffset (Chunk.metadata (cs ! i)) \<le> previousEnd"
proof -
  define t where "t = Document.content doc"
  define ov where "ov = chunkOverlap cfg"
  define splits where "splits = nonBlankSplits rawSplits"
  define offs where "offs = findChunkOffsets t splits ov"
  define ss where "ss = max 0 (snd (offs ! i) - ov)"
  define ld where "ld = int (length (splits ! Suc i)) - int (length (trimStart (splits ! Suc i)))"
  have i0: "i < length cs" using assms(5) by simp
  from chunkDocument_nth [OF assms(3) i0] assms(4)
  have len: "length cs = length splits"
    and c0: "cs ! i = makeChunk t (Document.filePath doc) (splits ! i) (offs ! i) (int i)"
    by (auto simp: splits_def offs_def t_def ov_def)
  from chunkDocument_nth [OF assms(3) assms(5)] assms(4)
  have c1: "cs ! Suc i = makeChunk t (Document.filePath doc) (splits ! Suc i) (offs ! Suc i) (int (Suc i))"
    by (auto simp: splits_def offs_def t_def ov_def)
  have "\<exists>q. offs ! i = findChunkOffsets_step t ov (splits ! i) q"
    unfolding offs_def using i0 len by (intro findChunkOffsets_nth_step) simp
  then obtain q where q: "offs ! i = findChunkOffsets_step t ov (splits ! i) q" ..
  have sn: "snd (offs ! i) = min (fst (offs ! i) + int (length (splits ! i))) (int (length t))"
    unfolding q by (rule step_snd)
  have e0: "ChunkMetadata.endOffset (Chunk.metadata (cs ! i)) \<le> snd (offs ! i)"
    unfolding c0 by (rule makeChunk_end_le [OF sn])
  have nn: "0 \<le> fst (offs ! i)" unfolding q by (rule step_fst_nonneg)
  have b0: "ChunkMetadata.startOffset (Chunk.metadata (cs ! i))
              \<le> ChunkMetadata.endOffset (Chunk.metadata (cs ! i))"
    and b1: "ChunkMetadata.endOffset (Chunk.metadata (cs ! i)) \<le> int (length t)"
    unfolding c0 using makeChunk_bounds [OF nn] by auto
  have nx: "offs ! Suc i = findChunkOffsets_step t ov (splits ! Suc i) (snd (offs ! i))"
    unfolding offs_def using assms(5) len by (intro findChunkOffsets_nth_Suc) simp
  have fx: "fst (offs ! Suc i) =
     (if indexOf t (splits ! Suc i) ss \<noteq> -1 then indexOf t (splits ! Suc i) ss
      else if indexOf t (splits ! Suc i) 0 \<noteq> -1 then indexOf t (splits ! Suc i) 0
      else ss)"
    unfolding nx ss_def by (rule step_fst_exact)
  have ld0: "0 \<le> ld" and ld1: "ld \<le> int (length (splits ! Suc i))"
    by (simp_all add: ld_def trimStart_def length_dropWhile_le)
  have st: "ChunkMetadata.startOffset (Chunk.metadata (cs ! Suc i))
     = min (fst (offs ! Suc i) + ld) (int (length t))"
    unfolding c1 ld_def by (rule makeChunk_start)
  have ss0: "snd (offs ! i) - ov \<le> ss" by (simp add: ss_def)
  have A: "ChunkMetadata.startOffset (Chunk.metadata (cs ! Suc i))
             = indexOf t (splits ! Suc i) ss + ld"
    if "indexOf t (splits ! Suc i) ss \<noteq> -1"
    using that indexOf_found_end [OF that] st fx ld1 by simp
  have lo: "ss \<le> indexOf t (splits ! Suc i) ss" if "indexOf t (splits ! Suc i) ss \<noteq> -1"
  proof -
    have nb: "trim (splits ! Suc i) \<noteq> []"
      using assms(5) len nth_mem [of "Suc i" splits] by (auto simp: splits_def nonBlankSplits_def)
    then have "splits ! Suc i \<noteq> []" by (auto simp: trim_def trimEnd_def trimStart_def)
    then have "0 < int (length (splits ! Suc i))" by simp
    with indexOf_found_end [OF that] have "indexOf t (splits ! Suc i) ss < int (length t)" by linarith
    moreover have "min (max ss 0) (int (length t)) \<le> indexOf t (splits ! Suc i) ss"
      using indexOf_sound [OF that] by simp
    ultimately show ?thesis by linarith
  qed
  have B: "ChunkMetadata.startOffset (Chunk.metadata (cs ! Suc i))
             = indexOf t (splits ! Suc i) 0 + ld"
    if "indexOf t (splits ! Suc i) ss = -1" "indexOf t (splits ! Suc i) 0 \<noteq> -1"
    using that indexOf_found_end [OF that(2)] st fx ld1 by simp
  have C: "ChunkMetadata.endOffset (Chunk.metadata (cs ! i)) - ov
             \<le> ChunkMetadata.startOffset (Chunk.metadata (cs ! Suc i))"
    if "\<not> (indexOf t (splits ! Suc i) ss = -1 \<and> indexOf t (splits ! Suc i) 0 \<noteq> -1)"
  proof (cases "indexOf t (splits ! Suc i) ss = -1")
    case True
    then have "fst (offs ! Suc i) = ss" using that fx by simp
    then show ?thesis using st ld0 ss0 e0 b1 assms(1) by (simp add: ov_def)
  next
    case False
    then have "ss \<le> fst (offs ! Suc i)" using lo fx by simp
    then show ?thesis using st ld0 ss0 e0 b1 assms(1) by (simp add: ov_def)
  qed
  show ?thesis
    unfolding Let_def t_def [symmetric] ov_def [symmetric] splits_def [symmetric]
      offs_def [symmetric] ss_def [symmetric] ld_def [symmetric]
    using A B C b0 e0 by auto
qed

theorem chunk_start_regression_bound_witness:
  "ChunkMetadata.startOffset (Chunk.metadata (exampleChunk ''b'' 1 0 1))
     = indexOf ''b ab'' ''b'' 0 + (int (length ''b'') - int (length (trimStart ''b''))) \<and>
   indexOf ''b ab'' ''b'' (max 0 (4 - 0)) = -1 \<and>
   indexOf ''b ab'' ''b'' 0 = 0 \<and>
   ChunkMetadata.endOffset (Chunk.metadata (exampleChunk ''ab'' 0 0 2))
       - chunkOverlap \<lparr> chunkSize = 3, chunkOverlap = 0 \<rparr>
     \<le> ChunkMetadata.startOffset (Chunk.metadata (exampleChunk ''ab'' 1 3 5)) \<and>
   ChunkMetadata.startOffset (Chunk.metadata (exampleChunk ''ab'' 1 3 5))
     = indexOf ''ab ab'' ''ab'' (max 0 (2 - 0))
         + (int (length ''ab'') - int (length (trimStart ''ab''))) \<and>
   indexOf ''ab ab'' ''ab'' (max 0 (2 - 0)) = 3 \<and>
   indexOf ''ab ab'' ''ab'' 0 = 0"
proof -
  have c1: "0 \<le> chunkOverlap \<lparr> chunkSize = 3, chunkOverlap = 0 \<rparr>"
    and c2: "chunkOverlap \<lparr> chunkSize = 3, chunkOverlap = 0 \<rparr> < chunkSize \<lparr> chunkSize = 3, chunkOverlap = 0 \<rparr>"
    by simp_all
  have f: "splitterUsed (\<lambda>cfg. fixedSplitter []) \<lparr> chunkSize = 3, chunkOverlap = 0 \<rparr>
       (Some (fixedSplitter [''ab'', ''b''])) (Document.content (exampleDocument ''b ab''))
     = Inr [''ab'', ''b'']"
    and g: "splitterUsed (\<lambda>cfg. fixedSplitter []) \<lparr> chunkSize = 3, chunkOverlap = 0 \<rparr>
       (Some (fixedSplitter [''ab'', ''ab''])) (Document.content (exampleDocument ''ab ab''))
     = Inr [''ab'', ''ab'']"
    by (simp_all add: fixedSplitter_def splitterUsed_def)
  have n: "Suc 0 < length [exampleChunk ''ab'' 0 2 4, exampleChunk ''b'' 1 0 1]"
    and m: "Suc 0 < length [exampleChunk ''ab'' 0 0 2, exampleChunk ''ab'' 1 3 5]"
    by simp_all
  have e1: "nonBlankSplits [''ab'', ''b''] ! Suc 0 = ''b''"
    and e2: "snd (findChunkOffsets ''b ab'' (nonBlankSplits [''ab'', ''b'']) 0 ! 0) = 4"
    and e3: "indexOf ''b ab'' ''b'' (max 0 (4 - 0)) = -1"
    and e4: "indexOf ''b ab'' ''b'' 0 = 0"
    by code_simp+
  have g1: "nonBlankSplits [''ab'', ''ab''] ! Suc 0 = ''ab''"
    and g2: "snd (findChunkOffsets ''ab ab'' (nonBlankSplits [''ab'', ''ab'']) 0 ! 0) = 2"
    and g3: "indexOf ''ab ab'' ''ab'' (max 0 (2 - 0)) = 3"
    and g4: "indexOf ''ab ab'' ''ab'' 0 = 0"
    by code_simp+
  have dc: "Document.content (exampleDocument ''b ab'') = ''b ab''"
    "Document.content (exampleDocument ''ab ab'') = ''ab ab''"
    by (simp_all add: exampleDocument_def)
  have cf: "chunkOverlap \<lparr> chunkSize = 3, chunkOverlap = 0 \<rparr> = 0"
    by simp
  note r = chunk_start_regression_bound [OF c1 c2 example_run_retry f n,
             unfolded Let_def dc cf e1 e2]
  note b = chunk_start_regression_bound [OF c1 c2 example_run_repeated g m,
             unfolded Let_def dc cf g1 g2]
  have r1: "ChunkMetadata.startOffset (Chunk.metadata (exampleChunk ''b'' 1 0 1))
     = indexOf ''b ab'' ''b'' 0 + (int (length ''b'') - int (length (trimStart ''b'')))"
    using r e3 e4 by simp
  have b1: "ChunkMetadata.endOffset (Chunk.metadata (exampleChunk ''ab'' 0 0 2)) - 0
     \<le> ChunkMetadata.startOffset (Chunk.metadata (exampleChunk ''ab'' 1 3 5))"
    and b2: "ChunkMetadata.startOffset (Chunk.metadata (exampleChunk ''ab'' 1 3 5))
     = indexOf ''ab ab'' ''ab'' (max 0 (2 - 0))
         + (int (length ''ab'') - int (length (trimStart ''ab'')))"
    using b g3 by simp_all
  show ?thesis using r1 e3 e4 b1 b2 g3 g4 by simp
qed

section \<open>Embedding the chunks\<close>

lemma embedChunks_loop_ok:
  assumes "\<forall>c \<in> set cs. \<exists>v. generateEmbedding (Chunk.content c) = Inr v"
  shows "\<exists>new. embedChunks_loop generateEmbedding cs acc = Inr (acc @ new) \<and>
           length new = length cs \<and>
           (\<forall>i < length cs.
              Chunk.content (new ! i) = Chunk.content (cs ! i) \<and>
              Chunk.metadata (new ! i) = Chunk.metadata (cs ! i) \<and>
              generateEmbedding (Chunk.content (cs ! i)) = Inr (EmbeddedChunk.embedding (new ! i)))"
  using assms
proof (induction cs arbitrary: acc)
  case Nil
  then show ?case by simp
next
  case (Cons c cs)
  then obtain v where v: "generateEmbedding (Chunk.content c) = Inr v" by auto
  define ec :: EmbeddedChunk where
    "ec = \<lparr> Chunk.content = Chunk.content c, metadata = Chunk.metadata c,
            EmbeddedChunk.embedding = v \<rparr>"
  from Cons.IH [of "acc @ [ec]"] Cons.prems obtain new where
    n: "embedChunks_loop generateEmbedding cs (acc @ [ec]) = Inr ((acc @ [ec]) @ new)"
       "length new = length cs"
       "\<forall>i < length cs.
              Chunk.content (new ! i) = Chunk.content (cs ! i) \<and>
              Chunk.metadata (new ! i) = Chunk.metadata (cs ! i) \<and>
              generateEmbedding (Chunk.content (cs ! i)) = Inr (EmbeddedChunk.embedding (new ! i))"
    by auto
  have 1: "embedChunks_loop generateEmbedding (c # cs) acc = Inr (acc @ (ec # new))"
    using v n(1) by (simp add: ec_def)
  have 2: "length (ec # new) = length (c # cs)" using n(2) by simp
  have 3: "Chunk.content ((ec # new) ! i) = Chunk.content ((c # cs) ! i) \<and>
           Chunk.metadata ((ec # new) ! i) = Chunk.metadata ((c # cs) ! i) \<and>
           generateEmbedding (Chunk.content ((c # cs) ! i))
             = Inr (EmbeddedChunk.embedding ((ec # new) ! i))"
    if "i < length (c # cs)" for i
  proof (cases i)
    case 0
    then show ?thesis using v by (simp add: ec_def)
  next
    case (Suc j)
    then show ?thesis using n(3) that by simp
  qed
  from 1 2 3 show ?case by blast
qed

text \<open>
  C9: when the provider returns a vector for the content of every chunk, \<open>embedChunks\<close>
  returns one embedded chunk per chunk, in the same order; the content and the metadata
  (\<open>filePath\<close>, \<open>chunkIndex\<close>, \<open>startOffset\<close>, \<open>endOffset\<close>) of each are those of the chunk
  it was made from, and the only field added is the embedding, the vector that the
  provider returned for that content.
\<close>

theorem embedChunks_preserves_chunks:
  assumes "\<forall>c \<in> set cs. \<exists>v. generateEmbedding (Chunk.content c) = Inr v"
  shows "\<exists>embedded. embedChunks generateEmbedding cs = Inr embedded \<and>
           length embedded = length cs \<and>
           (\<forall>i < length cs.
              Chunk.content (embedded ! i) = Chunk.content (cs ! i) \<and>
              ChunkMetadata.filePath (Chunk.metadata (embedded ! i))
                = ChunkMetadata.filePath (Chunk.metadata (cs ! i)) \<and>
              ChunkMetadata.chunkIndex (Chunk.metadata (embedded ! i))
                = ChunkMetadata.chunkIndex (Chunk.metadata (cs ! i)) \<and>
              ChunkMetadata.startOffset (Chunk.metadata (embedded ! i))
                = ChunkMetadata.startOffset (Chunk.metadata (cs ! i)) \<and>
              ChunkMetadata.endOffset (Chunk.metadata (embedded ! i))
                = ChunkMetadata.endOffset (Chunk.metadata (cs ! i)) \<and>
              Chunk.truncate (embedded ! i) = cs ! i \<and>
              generateEmbedding (Chunk.content (cs ! i))
                = Inr (EmbeddedChunk.embedding (embedded ! i)))"
proof -
  from embedChunks_loop_ok [OF assms, of "[]"] obtain new where
    n: "embedChunks_loop generateEmbedding cs [] = Inr new"
       "length new = length cs"
       "\<forall>i < length cs.
              Chunk.content (new ! i) = Chunk.content (cs ! i) \<and>
              Chunk.metadata (new ! i) = Chunk.metadata (cs ! i) \<and>
              generateEmbedding (Chunk.content (cs ! i)) = Inr (EmbeddedChunk.embedding (new ! i))"
    by auto
  have "Chunk.truncate (new ! i) = cs ! i" if "i < length cs" for i
    using n(3) that by (simp add: Chunk.truncate_def)
  with n show ?thesis unfolding embedChunks_def by auto
qed

lemma example_embed:
  "embedChunks exampleEmbedding [exampleChunk ''A.'' 0 0 2, exampleChunk ''B.'' 1 3 5]
     = Inr [\<lparr> Chunk.content = ''A.'', metadata = Chunk.metadata (exampleChunk ''A.'' 0 0 2),
              EmbeddedChunk.embedding = [2] \<rparr>,
            \<lparr> Chunk.content = ''B.'', metadata = Chunk.metadata (exampleChunk ''B.'' 1 3 5),
              EmbeddedChunk.embedding = [2] \<rparr>]"
  by (simp add: embedChunks_def exampleEmbedding_def exampleChunk_def)

theorem embedChunks_preserves_chunks_witness:
  "\<exists>embedded. embedChunks exampleEmbedding [exampleChunk ''A.'' 0 0 2, exampleChunk ''B.'' 1 3 5]
       = Inr embedded \<and>
     length embedded = 2 \<and>
     Chunk.truncate (embedded ! 0) = exampleChunk ''A.'' 0 0 2 \<and>
     Chunk.truncate (embedded ! 1) = exampleChunk ''B.'' 1 3 5 \<and>
     EmbeddedChunk.embedding (embedded ! 1) = [2]"
proof -
  have h: "\<forall>c \<in> set [exampleChunk ''A.'' 0 0 2, exampleChunk ''B.'' 1 3 5].
      \<exists>v. exampleEmbedding (Chunk.content c) = Inr v"
    by (simp add: exampleEmbedding_def exampleChunk_def)
  from embedChunks_preserves_chunks [OF h] obtain embedded where
    e: "embedChunks exampleEmbedding [exampleChunk ''A.'' 0 0 2, exampleChunk ''B.'' 1 3 5]
          = Inr embedded"
       "length embedded = length [exampleChunk ''A.'' 0 0 2, exampleChunk ''B.'' 1 3 5]"
       "\<forall>i < length [exampleChunk ''A.'' 0 0 2, exampleChunk ''B.'' 1 3 5].
          Chunk.truncate (embedded ! i) = [exampleChunk ''A.'' 0 0 2, exampleChunk ''B.'' 1 3 5] ! i \<and>
          exampleEmbedding (Chunk.content ([exampleChunk ''A.'' 0 0 2, exampleChunk ''B.'' 1 3 5] ! i))
            = Inr (EmbeddedChunk.embedding (embedded ! i))"
    by blast
  from e(3) have "Chunk.truncate (embedded ! 0) = exampleChunk ''A.'' 0 0 2"
    and "Chunk.truncate (embedded ! 1) = exampleChunk ''B.'' 1 3 5"
    and "exampleEmbedding (Chunk.content (exampleChunk ''B.'' 1 3 5))
            = Inr (EmbeddedChunk.embedding (embedded ! 1))"
    by force+
  moreover have "exampleEmbedding (Chunk.content (exampleChunk ''B.'' 1 3 5)) = Inr [2]"
    by (simp add: exampleEmbedding_def exampleChunk_def)
  ultimately show ?thesis using e(1) e(2) by auto
qed

section \<open>Persistence\<close>

lemma insertDocument_tx:
  assumes "transaction db = Some t" and "insertDocument accepts d db = (r, db')"
  shows "committed db' = committed db \<and>
         (\<exists>t'. transaction db' = Some t' \<and> chunkTable t' = chunkTable t \<and>
            (\<forall>i. r = Inr i \<longrightarrow>
               map documentInputOf (documentTable t')
                 = map documentInputOf (documentTable t) @ [d]))"
  using assms
  by (auto simp: insertDocument_def Let_def writeTables_def currentTables_def documentInputOf_def
           split: if_splits)

lemma insertChunkRow_tx:
  assumes "transaction db = Some t" and "insertChunkRow accepts docId c db = (r, db')"
  shows "committed db' = committed db \<and>
         (\<exists>t'. transaction db' = Some t' \<and> documentTable t' = documentTable t \<and>
            (\<forall>i. r = Inr i \<longrightarrow>
               map chunkInputOf (chunkTable t') = map chunkInputOf (chunkTable t) @ [c]))"
  using assms
  by (auto simp: insertChunkRow_def Let_def writeTables_def currentTables_def chunkInputOf_def
           split: if_splits)

lemma insertDocumentChunks_loop_tx:
  assumes "transaction db = Some t"
      and "insertDocumentChunks_loop accepts docId inputs ids db = (r, db')"
  shows "committed db' = committed db \<and>
         (\<exists>t'. transaction db' = Some t' \<and> documentTable t' = documentTable t \<and>
            (\<forall>ids'. r = Inr ids' \<longrightarrow>
               map chunkInputOf (chunkTable t') = map chunkInputOf (chunkTable t) @ inputs))"
  using assms
proof (induction inputs arbitrary: ids db t)
  case Nil
  then show ?case by simp
next
  case (Cons c inputs)
  obtain r1 db1 where s: "insertChunkRow accepts docId c db = (r1, db1)" by force
  from insertChunkRow_tx [OF Cons.prems(1) s] obtain t1 where
    t1: "committed db1 = committed db" "transaction db1 = Some t1"
        "documentTable t1 = documentTable t"
        "\<forall>i. r1 = Inr i \<longrightarrow> map chunkInputOf (chunkTable t1) = map chunkInputOf (chunkTable t) @ [c]"
    by auto
  show ?case
  proof (cases r1)
    case (Inl e)
    then have "r = Inl e" "db' = db1" using Cons.prems(2) s by simp_all
    then show ?thesis using t1 by simp
  next
    case (Inr newId)
    then have "insertDocumentChunks_loop accepts docId inputs (ids @ [newId]) db1 = (r, db')"
      using Cons.prems(2) s by simp
    from Cons.IH [OF t1(2) this] t1 Inr show ?thesis by auto
  qed
qed

lemma insertDocumentChunks_tx:
  assumes "transaction db = Some t"
      and "insertDocumentChunks accepts docId inputs db = (r, db')"
  shows "committed db' = committed db \<and>
         (\<exists>t'. transaction db' = Some t' \<and> documentTable t' = documentTable t \<and>
            (\<forall>ids'. r = Inr ids' \<longrightarrow>
               map chunkInputOf (chunkTable t') = map chunkInputOf (chunkTable t) @ inputs))"
proof (cases "inputs = []")
  case True
  then show ?thesis using assms by (simp add: insertDocumentChunks_def)
next
  case False
  then have "insertDocumentChunks_loop accepts docId inputs [] db = (r, db')"
    using assms(2) by (simp add: insertDocumentChunks_def)
  from insertDocumentChunks_loop_tx [OF assms(1) this] show ?thesis .
qed

lemma insertDocuments_loop_tx:
  assumes "transaction db = Some t"
      and "insertDocuments_loop accepts docs ids db = (r, db')"
  shows "committed db' = committed db \<and>
         (\<exists>t'. transaction db' = Some t' \<and>
            (\<forall>ids'. r = Inr ids' \<longrightarrow>
               length ids' = length ids + length docs \<and>
               map documentInputOf (documentTable t')
                 = map documentInputOf (documentTable t)
                     @ map DocumentWithChunksInput.document docs \<and>
               map chunkInputOf (chunkTable t')
                 = map chunkInputOf (chunkTable t)
                     @ concat (map DocumentWithChunksInput.chunks docs)))"
  using assms
proof (induction docs arbitrary: ids db t)
  case Nil
  then show ?case by auto
next
  case (Cons d docs)
  obtain r1 db1 where s1: "insertDocument accepts (DocumentWithChunksInput.document d) db = (r1, db1)"
    by force
  from insertDocument_tx [OF Cons.prems(1) s1] obtain t1 where
    t1: "committed db1 = committed db" "transaction db1 = Some t1" "chunkTable t1 = chunkTable t"
        "\<forall>i. r1 = Inr i \<longrightarrow> map documentInputOf (documentTable t1)
             = map documentInputOf (documentTable t) @ [DocumentWithChunksInput.document d]"
    by auto
  show ?case
  proof (cases r1)
    case (Inl e)
    then have "r = Inl e" "db' = db1" using Cons.prems(2) s1 by simp_all
    then show ?thesis using t1 by simp
  next
    case (Inr newId)
    obtain r2 db2 where
      s2: "insertDocumentChunks accepts newId (DocumentWithChunksInput.chunks d) db1 = (r2, db2)"
      by force
    from insertDocumentChunks_tx [OF t1(2) s2] obtain t2 where
      t2: "committed db2 = committed db1" "transaction db2 = Some t2"
          "documentTable t2 = documentTable t1"
          "\<forall>ids'. r2 = Inr ids' \<longrightarrow> map chunkInputOf (chunkTable t2)
               = map chunkInputOf (chunkTable t1) @ DocumentWithChunksInput.chunks d"
      by auto
    show ?thesis
    proof (cases r2)
      case (Inl e)
      then have "r = Inl e" "db' = db2" using Cons.prems(2) s1 s2 Inr by simp_all
      then show ?thesis using t1 t2 by simp
    next
      case (Inr chunkIds)
      then have "insertDocuments_loop accepts docs (ids @ [newId]) db2 = (r, db')"
        using Cons.prems(2) s1 s2 \<open>r1 = Inr newId\<close> by simp
      from Cons.IH [OF t2(2) this] t1 t2 Inr \<open>r1 = Inr newId\<close> show ?thesis by auto
    qed
  qed
qed

lemma insertDocumentChunks_loop_accepted:
  "\<forall>s. accepts s \<Longrightarrow> \<exists>ids'. fst (insertDocumentChunks_loop accepts docId inputs ids db) = Inr ids'"
  by (induction inputs arbitrary: ids db) (auto simp: insertChunkRow_def Let_def)

lemma insertDocuments_loop_accepted:
  "\<forall>s. accepts s \<Longrightarrow> \<exists>ids'. fst (insertDocuments_loop accepts docs ids db) = Inr ids'"
proof (induction docs arbitrary: ids db)
  case Nil
  then show ?case by simp
next
  case (Cons d docs)
  obtain newId db1 where
    s1: "insertDocument accepts (DocumentWithChunksInput.document d) db = (Inr newId, db1)"
    using Cons.prems by (simp add: insertDocument_def Let_def)
  obtain r2 db2 where
    s2: "insertDocumentChunks accepts newId (DocumentWithChunksInput.chunks d) db1 = (r2, db2)"
    by force
  have "\<exists>ids'. r2 = Inr ids'"
    using insertDocumentChunks_loop_accepted [OF Cons.prems, of newId "DocumentWithChunksInput.chunks d" "[]" db1] s2
    by (auto simp: insertDocumentChunks_def split: if_splits)
  then obtain cids where "r2 = Inr cids" ..
  then show ?case using s1 s2 Cons.IH [OF Cons.prems, of "ids @ [newId]" db2] by simp
qed

lemma example_insert_failure:
  "insertDocuments (acceptsExcept ''bad'')
     [exampleInput ''a.md'' [''one'', ''two''], exampleInput ''b.md'' [''bad'']] emptyDatabase
   = (Inl (DatabaseError ''insert into document_chunk failed''),
      emptyDatabase\<lparr> documentSeq := 2, chunkSeq := 2 \<rparr>)"
  by (simp add: insertDocuments_def insertDocument_def insertDocumentChunks_def
        insertChunkRow_def begin_tx_def rollback_tx_def commit_tx_def writeTables_def
        currentTables_def acceptsExcept_def exampleInput_def emptyDatabase_def Let_def)

lemma example_insert_first_alone:
  "map documentInputOf (documentTable (committed (snd (insertDocuments (acceptsExcept ''bad'')
     [exampleInput ''a.md'' [''one'', ''two'']] emptyDatabase))))
   = [DocumentWithChunksInput.document (exampleInput ''a.md'' [''one'', ''two''])]"
  by (simp add: insertDocuments_def insertDocument_def insertDocumentChunks_def
        insertChunkRow_def begin_tx_def rollback_tx_def commit_tx_def writeTables_def
        currentTables_def acceptsExcept_def exampleInput_def emptyDatabase_def Let_def
        documentInputOf_def)

text \<open>
  C5, as the specification states it: one document with its chunks is persisted
  atomically, and each document is committed by itself, so that a failure while
  inserting document N does not roll back the documents 1..N-1. The second part fails:
  \<open>insertDocuments\<close> opens one transaction around all the documents it is given. With
  two documents, the second of which has a chunk that the engine rejects, the call ends
  with the error and the committed tables are as before: the first document, which is
  persisted when it is inserted alone, is not there.
\<close>

theorem insertDocuments_rolls_back_earlier_documents_counterexample:
  "insertDocuments (acceptsExcept ''bad'')
     [exampleInput ''a.md'' [''one'', ''two''], exampleInput ''b.md'' [''bad'']] emptyDatabase
     = (Inl (DatabaseError ''insert into document_chunk failed''),
        emptyDatabase\<lparr> documentSeq := 2, chunkSeq := 2 \<rparr>) \<and>
   documentTable (committed (emptyDatabase\<lparr> documentSeq := 2, chunkSeq := 2 \<rparr>)) = [] \<and>
   map documentInputOf (documentTable (committed (snd (insertDocuments (acceptsExcept ''bad'')
     [exampleInput ''a.md'' [''one'', ''two'']] emptyDatabase))))
     = [DocumentWithChunksInput.document (exampleInput ''a.md'' [''one'', ''two''])]"
  using example_insert_failure example_insert_first_alone
  by (simp add: emptyDatabase_def)

text \<open>
  C5, amended: \<open>insertDocuments\<close>, called outside a transaction, is atomic for the whole
  list of documents it is given. When it ends with an error, the committed tables are
  what they were before the call: no row of any document of the call is visible, also
  not of the documents before the failing one. When it returns, the committed tables
  hold the row of every document and of every chunk of the call, in order, after the
  rows that were there. In both cases no transaction is left open. When the engine
  accepts every statement, it returns.
\<close>

theorem insertDocuments_one_transaction:
  assumes "transaction db = None" and "insertDocuments accepts docs db = (r, db')"
  shows "transaction db' = None \<and>
         (\<forall>e. r = Inl e \<longrightarrow> committed db' = committed db) \<and>
         (\<forall>ids. r = Inr ids \<longrightarrow>
            length ids = length docs \<and>
            map documentInputOf (documentTable (committed db'))
              = map documentInputOf (documentTable (committed db))
                  @ map DocumentWithChunksInput.document docs \<and>
            map chunkInputOf (chunkTable (committed db'))
              = map chunkInputOf (chunkTable (committed db))
                  @ concat (map DocumentWithChunksInput.chunks docs)) \<and>
         ((\<forall>s. accepts s) \<longrightarrow> (\<exists>ids. r = Inr ids))"
proof (cases "docs = []")
  case True
  then show ?thesis using assms by (auto simp: insertDocuments_def)
next
  case False
  obtain r1 db1 where l: "insertDocuments_loop accepts docs [] (begin_tx db) = (r1, db1)" by force
  have b: "transaction (begin_tx db) = Some (committed db)" "committed (begin_tx db) = committed db"
    by (simp_all add: begin_tx_def)
  from insertDocuments_loop_tx [OF b(1) l] b(2) obtain t' where
    t': "committed db1 = committed db" "transaction db1 = Some t'"
        "\<forall>ids'. r1 = Inr ids' \<longrightarrow>
               length ids' = length docs \<and>
               map documentInputOf (documentTable t')
                 = map documentInputOf (documentTable (committed db))
                     @ map DocumentWithChunksInput.document docs \<and>
               map chunkInputOf (chunkTable t')
                 = map chunkInputOf (chunkTable (committed db))
                     @ concat (map DocumentWithChunksInput.chunks docs)"
    by auto
  have acc: "(\<forall>s. accepts s) \<longrightarrow> (\<exists>ids. r1 = Inr ids)"
    using insertDocuments_loop_accepted [of accepts docs "[]" "begin_tx db"] l by simp
  show ?thesis
  proof (cases r1)
    case (Inl e)
    then have "r = Inl e" "db' = rollback_tx db1"
      using assms(2) False l by (simp_all add: insertDocuments_def)
    then show ?thesis using t' acc Inl by (simp add: rollback_tx_def)
  next
    case (Inr ids)
    then have "r = Inr ids" "db' = commit_tx db1"
      using assms(2) False l by (simp_all add: insertDocuments_def)
    then show ?thesis using t' Inr by (simp add: commit_tx_def)
  qed
qed

theorem insertDocuments_one_transaction_witness:
  "transaction (emptyDatabase\<lparr> documentSeq := 2, chunkSeq := 2 \<rparr>) = None \<and>
   committed (emptyDatabase\<lparr> documentSeq := 2, chunkSeq := 2 \<rparr>) = committed emptyDatabase \<and>
   map documentInputOf (documentTable (committed (snd (insertDocuments (\<lambda>s. True)
       [exampleInput ''a.md'' [''one'', ''two''], exampleInput ''b.md'' [''bad'']] emptyDatabase))))
     = map documentInputOf (documentTable (committed emptyDatabase))
         @ map DocumentWithChunksInput.document
             [exampleInput ''a.md'' [''one'', ''two''], exampleInput ''b.md'' [''bad'']] \<and>
   map chunkInputOf (chunkTable (committed (snd (insertDocuments (\<lambda>s. True)
       [exampleInput ''a.md'' [''one'', ''two''], exampleInput ''b.md'' [''bad'']] emptyDatabase))))
     = map chunkInputOf (chunkTable (committed emptyDatabase))
         @ concat (map DocumentWithChunksInput.chunks
             [exampleInput ''a.md'' [''one'', ''two''], exampleInput ''b.md'' [''bad'']])"
proof -
  have h: "transaction emptyDatabase = None" by (simp add: emptyDatabase_def)
  have ok: "insertDocuments (\<lambda>s. True)
       [exampleInput ''a.md'' [''one'', ''two''], exampleInput ''b.md'' [''bad'']] emptyDatabase
     = (fst (insertDocuments (\<lambda>s. True)
          [exampleInput ''a.md'' [''one'', ''two''], exampleInput ''b.md'' [''bad'']] emptyDatabase),
        snd (insertDocuments (\<lambda>s. True)
          [exampleInput ''a.md'' [''one'', ''two''], exampleInput ''b.md'' [''bad'']] emptyDatabase))"
    by simp
  have all: "\<forall>s. (\<lambda>s. True) s" by simp
  from insertDocuments_one_transaction [OF h example_insert_failure]
  have a: "transaction (emptyDatabase\<lparr> documentSeq := 2, chunkSeq := 2 \<rparr>) = None"
    and b: "committed (emptyDatabase\<lparr> documentSeq := 2, chunkSeq := 2 \<rparr>) = committed emptyDatabase"
    by blast+
  from insertDocuments_one_transaction [OF h ok] all
  have c: "map documentInputOf (documentTable (committed (snd (insertDocuments (\<lambda>s. True)
       [exampleInput ''a.md'' [''one'', ''two''], exampleInput ''b.md'' [''bad'']] emptyDatabase))))
     = map documentInputOf (documentTable (committed emptyDatabase))
         @ map DocumentWithChunksInput.document
             [exampleInput ''a.md'' [''one'', ''two''], exampleInput ''b.md'' [''bad'']]"
    and d: "map chunkInputOf (chunkTable (committed (snd (insertDocuments (\<lambda>s. True)
       [exampleInput ''a.md'' [''one'', ''two''], exampleInput ''b.md'' [''bad'']] emptyDatabase))))
     = map chunkInputOf (chunkTable (committed emptyDatabase))
         @ concat (map DocumentWithChunksInput.chunks
             [exampleInput ''a.md'' [''one'', ''two''], exampleInput ''b.md'' [''bad'']])"
    by blast+
  from a b c d show ?thesis by blast
qed

section \<open>Retrieval\<close>

lemma chunkDocumentJoin_set:
  "(dc, d) \<in> set (chunkDocumentJoin t) \<longleftrightarrow>
     dc \<in> set (chunkTable t) \<and> d \<in> set (documentTable t) \<and>
     DocumentRecord.id' d = DocumentChunkRecord.documentId dc"
  by (auto simp: chunkDocumentJoin_def)

lemma selectedRows_set:
  "(dc, d) \<in> set (selectedRows scanned db v cat) \<longleftrightarrow>
     dc \<in> set (chunkTable (committed db)) \<and> d \<in> set (documentTable (committed db)) \<and>
     DocumentRecord.id' d = DocumentChunkRecord.documentId dc \<and> scanned v dc \<and>
     (cat = None \<or> cat = Some (DocumentRecord.category d))"
  by (auto simp: selectedRows_def chunkDocumentJoin_set)

lemma toSearchResult_similarity:
  "SearchResult.similarity (toSearchResult distance v x)
     = 1 - distance (DocumentChunkRecord.embedding (fst x)) v"
  by (cases x) (simp add: toSearchResult_def)

lemma toSearchResult_category:
  "SearchResult.category (toSearchResult distance v x) = DocumentRecord.category (snd x)"
  by (cases x) (simp add: toSearchResult_def)

lemma sorted_take_drop:
  assumes "sorted (map f xs)" and "a \<in> set (take n xs)" and "b \<in> set (drop n xs)"
  shows "f a \<le> f b"
proof -
  have "sorted (map f (take n xs) @ map f (drop n xs))"
    using assms(1) by (metis append_take_drop_id map_append)
  then show ?thesis using assms(2,3) by (auto simp: sorted_append)
qed

lemma searchByVector_Inr:
  assumes "searchByVector distance scanned db v limit cat = Inr found"
  shows "0 \<le> limit \<and>
         found = map (toSearchResult distance v)
                  (take (nat limit)
                     (sort_key (\<lambda>(dc, d). distance (DocumentChunkRecord.embedding dc) v)
                        (selectedRows scanned db v cat)))"
  using assms by (auto simp: searchByVector_def Let_def split: if_splits)

lemma searchByVector_props:
  assumes "searchByVector distance scanned db v limit cat = Inr found"
  shows "int (length found) \<le> limit"
    and "sorted_wrt (\<lambda>a b. SearchResult.similarity b \<le> SearchResult.similarity a) found"
    and "\<forall>r \<in> set found.
           \<exists>dc \<in> set (chunkTable (committed db)). \<exists>d \<in> set (documentTable (committed db)).
             DocumentRecord.id' d = DocumentChunkRecord.documentId dc \<and> scanned v dc \<and>
             (cat = None \<or> cat = Some (DocumentRecord.category d)) \<and>
             r = toSearchResult distance v (dc, d)"
    and "\<forall>dc \<in> set (chunkTable (committed db)). \<forall>d \<in> set (documentTable (committed db)).
           DocumentRecord.id' d = DocumentChunkRecord.documentId dc \<and> scanned v dc \<and>
           (cat = None \<or> cat = Some (DocumentRecord.category d)) \<longrightarrow>
             toSearchResult distance v (dc, d) \<in> set found \<or>
             (length found = nat limit \<and>
              (\<forall>r \<in> set found.
                 SearchResult.similarity (toSearchResult distance v (dc, d))
                   \<le> SearchResult.similarity r))"
    and "length found = min (nat limit) (length (selectedRows scanned db v cat))"
proof -
  define key where "key = (\<lambda>(dc :: DocumentChunkRecord, d :: DocumentRecord).
      distance (DocumentChunkRecord.embedding dc) v)"
  define sel where "sel = selectedRows scanned db v cat"
  define ordered where "ordered = sort_key key sel"
  define n where "n = nat limit"
  from searchByVector_Inr [OF assms]
  have lim: "0 \<le> limit" and f: "found = map (toSearchResult distance v) (take n ordered)"
    by (simp_all add: key_def sel_def ordered_def n_def)
  have sim: "SearchResult.similarity (toSearchResult distance v x) = 1 - key x" for x
    by (cases x) (simp add: toSearchResult_def key_def)
  have so: "sorted (map key ordered)" unfolding ordered_def by (rule sorted_sort_key)
  have seto: "set ordered = set sel" by (simp add: ordered_def)
  show "int (length found) \<le> limit" using lim by (simp add: f n_def)
  show "length found = min (nat limit) (length (selectedRows scanned db v cat))"
    by (simp add: f ordered_def sel_def n_def min.commute)
  from so have "sorted_wrt (\<lambda>x y. key x \<le> key y) ordered" by (simp add: sorted_wrt_map)
  then have "sorted_wrt (\<lambda>x y. key x \<le> key y) (take n ordered)"
    by (rule sorted_wrt_take)
  then have "sorted_wrt (\<lambda>x y. SearchResult.similarity (toSearchResult distance v y)
                             \<le> SearchResult.similarity (toSearchResult distance v x))
               (take n ordered)"
    by (rule sorted_wrt_mono_rel [rotated]) (simp add: sim)
  then show "sorted_wrt (\<lambda>a b. SearchResult.similarity b \<le> SearchResult.similarity a) found"
    by (simp add: f sorted_wrt_map)
  show "\<forall>r \<in> set found.
           \<exists>dc \<in> set (chunkTable (committed db)). \<exists>d \<in> set (documentTable (committed db)).
             DocumentRecord.id' d = DocumentChunkRecord.documentId dc \<and> scanned v dc \<and>
             (cat = None \<or> cat = Some (DocumentRecord.category d)) \<and>
             r = toSearchResult distance v (dc, d)"
  proof
    fix r assume "r \<in> set found"
    then obtain x where x: "x \<in> set (take n ordered)" "r = toSearchResult distance v x"
      by (auto simp: f)
    then have "x \<in> set sel" using seto set_take_subset [of n ordered] by auto
    then have "(fst x, snd x) \<in> set (selectedRows scanned db v cat)" by (simp add: sel_def)
    then show "\<exists>dc \<in> set (chunkTable (committed db)). \<exists>d \<in> set (documentTable (committed db)).
             DocumentRecord.id' d = DocumentChunkRecord.documentId dc \<and> scanned v dc \<and>
             (cat = None \<or> cat = Some (DocumentRecord.category d)) \<and>
             r = toSearchResult distance v (dc, d)"
      unfolding selectedRows_set using x(2) by (intro bexI [of _ "fst x"] bexI [of _ "snd x"]) auto
  qed
  show "\<forall>dc \<in> set (chunkTable (committed db)). \<forall>d \<in> set (documentTable (committed db)).
           DocumentRecord.id' d = DocumentChunkRecord.documentId dc \<and> scanned v dc \<and>
           (cat = None \<or> cat = Some (DocumentRecord.category d)) \<longrightarrow>
             toSearchResult distance v (dc, d) \<in> set found \<or>
             (length found = nat limit \<and>
              (\<forall>r \<in> set found.
                 SearchResult.similarity (toSearchResult distance v (dc, d))
                   \<le> SearchResult.similarity r))"
  proof (intro ballI impI)
    fix dc d
    assume "dc \<in> set (chunkTable (committed db))" "d \<in> set (documentTable (committed db))"
      and "DocumentRecord.id' d = DocumentChunkRecord.documentId dc \<and> scanned v dc \<and>
           (cat = None \<or> cat = Some (DocumentRecord.category d))"
    then have "(dc, d) \<in> set sel" unfolding sel_def selectedRows_set by simp
    then have "(dc, d) \<in> set ordered" using seto by simp
    then have "(dc, d) \<in> set (take n ordered) \<union> set (drop n ordered)"
      by (metis append_take_drop_id set_append)
    then consider "(dc, d) \<in> set (take n ordered)" | "(dc, d) \<in> set (drop n ordered)"
      by blast
    then show "toSearchResult distance v (dc, d) \<in> set found \<or>
             (length found = nat limit \<and>
              (\<forall>r \<in> set found.
                 SearchResult.similarity (toSearchResult distance v (dc, d))
                   \<le> SearchResult.similarity r))"
    proof cases
      case 1
      then show ?thesis by (auto simp: f)
    next
      case 2
      then have "drop n ordered \<noteq> []" by auto
      then have "n < length ordered" by simp
      then have l: "length found = nat limit" by (simp add: f n_def)
      have "SearchResult.similarity (toSearchResult distance v (dc, d)) \<le> SearchResult.similarity r"
        if "r \<in> set found" for r
      proof -
        from that obtain x where x: "x \<in> set (take n ordered)" "r = toSearchResult distance v x"
          by (auto simp: f)
        from sorted_take_drop [OF so x(1) 2] have "key x \<le> key (dc, d)" .
        then show ?thesis unfolding x(2) sim by simp
      qed
      with l show ?thesis by blast
    qed
  qed
qed

text \<open>
  Two retrievals from the example database of three chunks: one with the category
  \<open>shipping\<close> and a scan that reaches every chunk, one without a category and a scan that
  misses the chunk 2, which is the nearest to the query.
\<close>

lemma example_retrieve_shipping:
  "retrieve exampleDistance scanAll exampleEmbedding exampleDatabase 5 ''q'' (Some ''shipping'')
     = Inr \<lparr> RetrieveResult.query = ''q'',
             results = [exampleResult 2 1 ''slips'' ''shipping'' ''shipping/slips.md'' 1 8 13 0,
                        exampleResult 1 1 ''packing'' ''shipping'' ''shipping/slips.md'' 0 0 7 (-2)] \<rparr>"
  by (simp add: retrieve_def searchByVector_def selectedRows_def toSearchResult_def
        chunkDocumentJoin_def exampleDistance_def scanAll_def
        exampleEmbedding_def exampleDatabase_def exampleTables_def exampleResult_def Let_def)

lemma example_retrieve_approximate:
  "retrieve exampleDistance (scanExcept 2) exampleEmbedding exampleDatabase 5 ''q'' None
     = Inr \<lparr> RetrieveResult.query = ''q'',
             results = [exampleResult 3 2 ''welcome'' ''general'' ''welcome.md'' 0 0 7 (-1),
                        exampleResult 1 1 ''packing'' ''shipping'' ''shipping/slips.md'' 0 0 7 (-2)] \<rparr>"
  by (simp add: retrieve_def searchByVector_def selectedRows_def toSearchResult_def
        chunkDocumentJoin_def exampleDistance_def scanExcept_def
        exampleEmbedding_def exampleDatabase_def exampleTables_def exampleResult_def Let_def)

text \<open>
  C8: for every query, category filter and \<open>topK\<close>, \<open>retrieve\<close> returns whenever the query
  can be embedded and \<open>topK\<close> is not negative, and what it returns is a list of at most
  \<open>topK\<close> results in descending order of similarity; with a category, every result has
  the category of the filter. Every result is a committed chunk row joined with its
  document row, reached by the index scan and passing the filter, with the similarity
  \<open>1 - distance\<close> to the query's embedding; of the rows that the scan reaches and the
  filter passes, none is left out unless the result is full with results that are all at
  least as similar: without a filter the rows of every category are searched. The
  number of results is \<open>topK\<close>, or the number of those rows when it is smaller.
\<close>

theorem retrieve_ranked:
  "(\<forall>v. generateEmbedding q = Inr v \<and> 0 \<le> topK \<longrightarrow>
        (\<exists>rr. retrieve distance scanned generateEmbedding db topK q cat = Inr rr)) \<and>
   (\<forall>rr. retrieve distance scanned generateEmbedding db topK q cat = Inr rr \<longrightarrow>
      (\<exists>v. generateEmbedding q = Inr v \<and>
         RetrieveResult.query rr = q \<and>
         int (length (RetrieveResult.results rr)) \<le> topK \<and>
         sorted_wrt (\<lambda>a b. SearchResult.similarity b \<le> SearchResult.similarity a)
           (RetrieveResult.results rr) \<and>
         (\<forall>c. cat = Some c \<longrightarrow>
            (\<forall>r \<in> set (RetrieveResult.results rr). SearchResult.category r = c)) \<and>
         (\<forall>r \<in> set (RetrieveResult.results rr).
            \<exists>dc \<in> set (chunkTable (committed db)). \<exists>d \<in> set (documentTable (committed db)).
              DocumentRecord.id' d = DocumentChunkRecord.documentId dc \<and> scanned v dc \<and>
              (cat = None \<or> cat = Some (DocumentRecord.category d)) \<and>
              r = \<lparr> SearchResult.id' = DocumentChunkRecord.id' dc,
                    documentId = DocumentChunkRecord.documentId dc,
                    content = DocumentChunkRecord.content dc,
                    category = DocumentRecord.category d,
                    filePath = DocumentRecord.filePath d,
                    chunkIndex = DocumentChunkRecord.chunkIndex dc,
                    startOffset = DocumentChunkRecord.startOffset dc,
                    endOffset = DocumentChunkRecord.endOffset dc,
                    similarity = 1 - distance (DocumentChunkRecord.embedding dc) v \<rparr>) \<and>
         (\<forall>dc \<in> set (chunkTable (committed db)). \<forall>d \<in> set (documentTable (committed db)).
            DocumentRecord.id' d = DocumentChunkRecord.documentId dc \<and> scanned v dc \<and>
            (cat = None \<or> cat = Some (DocumentRecord.category d)) \<longrightarrow>
              \<lparr> SearchResult.id' = DocumentChunkRecord.id' dc,
                documentId = DocumentChunkRecord.documentId dc,
                content = DocumentChunkRecord.content dc,
                category = DocumentRecord.category d,
                filePath = DocumentRecord.filePath d,
                chunkIndex = DocumentChunkRecord.chunkIndex dc,
                startOffset = DocumentChunkRecord.startOffset dc,
                endOffset = DocumentChunkRecord.endOffset dc,
                similarity = 1 - distance (DocumentChunkRecord.embedding dc) v \<rparr>
                \<in> set (RetrieveResult.results rr) \<or>
              (length (RetrieveResult.results rr) = nat topK \<and>
               (\<forall>r \<in> set (RetrieveResult.results rr).
                  1 - distance (DocumentChunkRecord.embedding dc) v \<le> SearchResult.similarity r))) \<and>
         length (RetrieveResult.results rr)
           = min (nat topK) (length (selectedRows scanned db v cat))))"
proof (intro conjI allI impI)
  fix v
  assume "generateEmbedding q = Inr v \<and> 0 \<le> topK"
  then show "\<exists>rr. retrieve distance scanned generateEmbedding db topK q cat = Inr rr"
    by (simp add: retrieve_def searchByVector_def Let_def)
next
  fix rr
  assume a: "retrieve distance scanned generateEmbedding db topK q cat = Inr rr"
  then obtain v found where
    s: "generateEmbedding q = Inr v" "searchByVector distance scanned db v topK cat = Inr found"
       "RetrieveResult.results rr = found" "RetrieveResult.query rr = q"
    by (auto simp: retrieve_def split: sum.splits)
  note p = searchByVector_props [OF s(2)]
  have mk: "toSearchResult distance v (dc, d) =
      \<lparr> SearchResult.id' = DocumentChunkRecord.id' dc,
        documentId = DocumentChunkRecord.documentId dc,
        content = DocumentChunkRecord.content dc,
        category = DocumentRecord.category d,
        filePath = DocumentRecord.filePath d,
        chunkIndex = DocumentChunkRecord.chunkIndex dc,
        startOffset = DocumentChunkRecord.startOffset dc,
        endOffset = DocumentChunkRecord.endOffset dc,
        similarity = 1 - distance (DocumentChunkRecord.embedding dc) v \<rparr>" for dc d
    by (simp add: toSearchResult_def)
  have sm: "SearchResult.similarity (toSearchResult distance v (dc, d))
      = 1 - distance (DocumentChunkRecord.embedding dc) v" for dc d
    by (simp add: toSearchResult_similarity)
  have cat: "\<forall>c. cat = Some c \<longrightarrow> (\<forall>r \<in> set found. SearchResult.category r = c)"
  proof (intro allI impI ballI)
    fix c r assume c: "cat = Some c" and "r \<in> set found"
    with p(3) obtain dc d where "cat = None \<or> cat = Some (DocumentRecord.category d)"
      "r = toSearchResult distance v (dc, d)" by blast
    then show "SearchResult.category r = c" using c by (simp add: toSearchResult_category)
  qed
  show "\<exists>v. generateEmbedding q = Inr v \<and>
         RetrieveResult.query rr = q \<and>
         int (length (RetrieveResult.results rr)) \<le> topK \<and>
         sorted_wrt (\<lambda>a b. SearchResult.similarity b \<le> SearchResult.similarity a)
           (RetrieveResult.results rr) \<and>
         (\<forall>c. cat = Some c \<longrightarrow>
            (\<forall>r \<in> set (RetrieveResult.results rr). SearchResult.category r = c)) \<and>
         (\<forall>r \<in> set (RetrieveResult.results rr).
            \<exists>dc \<in> set (chunkTable (committed db)). \<exists>d \<in> set (documentTable (committed db)).
              DocumentRecord.id' d = DocumentChunkRecord.documentId dc \<and> scanned v dc \<and>
              (cat = None \<or> cat = Some (DocumentRecord.category d)) \<and>
              r = \<lparr> SearchResult.id' = DocumentChunkRecord.id' dc,
                    documentId = DocumentChunkRecord.documentId dc,
                    content = DocumentChunkRecord.content dc,
                    category = DocumentRecord.category d,
                    filePath = DocumentRecord.filePath d,
                    chunkIndex = DocumentChunkRecord.chunkIndex dc,
                    startOffset = DocumentChunkRecord.startOffset dc,
                    endOffset = DocumentChunkRecord.endOffset dc,
                    similarity = 1 - distance (DocumentChunkRecord.embedding dc) v \<rparr>) \<and>
         (\<forall>dc \<in> set (chunkTable (committed db)). \<forall>d \<in> set (documentTable (committed db)).
            DocumentRecord.id' d = DocumentChunkRecord.documentId dc \<and> scanned v dc \<and>
            (cat = None \<or> cat = Some (DocumentRecord.category d)) \<longrightarrow>
              \<lparr> SearchResult.id' = DocumentChunkRecord.id' dc,
                documentId = DocumentChunkRecord.documentId dc,
                content = DocumentChunkRecord.content dc,
                category = DocumentRecord.category d,
                filePath = DocumentRecord.filePath d,
                chunkIndex = DocumentChunkRecord.chunkIndex dc,
                startOffset = DocumentChunkRecord.startOffset dc,
                endOffset = DocumentChunkRecord.endOffset dc,
                similarity = 1 - distance (DocumentChunkRecord.embedding dc) v \<rparr>
                \<in> set (RetrieveResult.results rr) \<or>
              (length (RetrieveResult.results rr) = nat topK \<and>
               (\<forall>r \<in> set (RetrieveResult.results rr).
                  1 - distance (DocumentChunkRecord.embedding dc) v \<le> SearchResult.similarity r))) \<and>
         length (RetrieveResult.results rr)
           = min (nat topK) (length (selectedRows scanned db v cat))"
    unfolding s(3)
    using s(1) s(4) p(1) p(2) cat p(3) [unfolded mk] p(4) [unfolded sm, unfolded mk] p(5)
    by (intro exI [of _ v] conjI)
qed

theorem retrieve_ranked_witness:
  "int (length [exampleResult 2 1 ''slips'' ''shipping'' ''shipping/slips.md'' 1 8 13 0,
                exampleResult 1 1 ''packing'' ''shipping'' ''shipping/slips.md'' 0 0 7 (-2)]) \<le> 5 \<and>
   sorted_wrt (\<lambda>a b. SearchResult.similarity b \<le> SearchResult.similarity a)
     [exampleResult 2 1 ''slips'' ''shipping'' ''shipping/slips.md'' 1 8 13 0,
      exampleResult 1 1 ''packing'' ''shipping'' ''shipping/slips.md'' 0 0 7 (-2)] \<and>
   map SearchResult.category
     [exampleResult 2 1 ''slips'' ''shipping'' ''shipping/slips.md'' 1 8 13 0,
      exampleResult 1 1 ''packing'' ''shipping'' ''shipping/slips.md'' 0 0 7 (-2)]
     = [''shipping'', ''shipping''] \<and>
   length [exampleResult 3 2 ''welcome'' ''general'' ''welcome.md'' 0 0 7 (-1),
           exampleResult 1 1 ''packing'' ''shipping'' ''shipping/slips.md'' 0 0 7 (-2)]
     = min (nat 5) (length (selectedRows (scanExcept 2) exampleDatabase [1] None)) \<and>
   length (chunkDocumentJoin (committed exampleDatabase)) = 3"
proof -
  let ?R = "\<lparr> RetrieveResult.query = ''q'',
             results = [exampleResult 2 1 ''slips'' ''shipping'' ''shipping/slips.md'' 1 8 13 0,
                        exampleResult 1 1 ''packing'' ''shipping'' ''shipping/slips.md'' 0 0 7 (-2)] \<rparr>"
  let ?A = "\<lparr> RetrieveResult.query = ''q'',
             results = [exampleResult 3 2 ''welcome'' ''general'' ''welcome.md'' 0 0 7 (-1),
                        exampleResult 1 1 ''packing'' ''shipping'' ''shipping/slips.md'' 0 0 7 (-2)] \<rparr>"
  have e: "exampleEmbedding ''q'' = Inr v \<Longrightarrow> v = [1]" for v
    by (simp add: exampleEmbedding_def)
  note exact = retrieve_ranked [where generateEmbedding = exampleEmbedding and q = "''q''"
         and topK = 5 and distance = exampleDistance and scanned = scanAll
         and db = exampleDatabase and cat = "Some ''shipping''",
         THEN conjunct2, THEN spec, THEN mp, OF example_retrieve_shipping]
  from exact obtain v where
        a0: "int (length (RetrieveResult.results ?R)) \<le> 5"
    and b0: "sorted_wrt (\<lambda>a b. SearchResult.similarity b \<le> SearchResult.similarity a)
               (RetrieveResult.results ?R)"
    and c0: "\<forall>c. Some ''shipping'' = Some c \<longrightarrow>
               (\<forall>r \<in> set (RetrieveResult.results ?R). SearchResult.category r = c)"
    by (elim exE conjE)
  note approx = retrieve_ranked [where generateEmbedding = exampleEmbedding and q = "''q''"
         and topK = 5 and distance = exampleDistance and scanned = "scanExcept 2"
         and db = exampleDatabase and cat = None,
         THEN conjunct2, THEN spec, THEN mp, OF example_retrieve_approximate]
  from approx obtain w where
        w: "exampleEmbedding ''q'' = Inr w"
    and d0: "length (RetrieveResult.results ?A)
               = min (nat 5) (length (selectedRows (scanExcept 2) exampleDatabase w None))"
    by (elim exE conjE)
  have a: "int (length [exampleResult 2 1 ''slips'' ''shipping'' ''shipping/slips.md'' 1 8 13 0,
                exampleResult 1 1 ''packing'' ''shipping'' ''shipping/slips.md'' 0 0 7 (-2)]) \<le> 5"
    using a0 by simp
  have b: "sorted_wrt (\<lambda>a b. SearchResult.similarity b \<le> SearchResult.similarity a)
     [exampleResult 2 1 ''slips'' ''shipping'' ''shipping/slips.md'' 1 8 13 0,
      exampleResult 1 1 ''packing'' ''shipping'' ''shipping/slips.md'' 0 0 7 (-2)]"
    using b0 by (simp only: RetrieveResult.simps)
  have c: "map SearchResult.category
     [exampleResult 2 1 ''slips'' ''shipping'' ''shipping/slips.md'' 1 8 13 0,
      exampleResult 1 1 ''packing'' ''shipping'' ''shipping/slips.md'' 0 0 7 (-2)]
     = [''shipping'', ''shipping'']"
    using c0 by simp
  have d: "length [exampleResult 3 2 ''welcome'' ''general'' ''welcome.md'' 0 0 7 (-1),
           exampleResult 1 1 ''packing'' ''shipping'' ''shipping/slips.md'' 0 0 7 (-2)]
     = min (nat 5) (length (selectedRows (scanExcept 2) exampleDatabase [1] None))"
    using d0 e [OF w] by (simp only: RetrieveResult.simps)
  have j: "length (chunkDocumentJoin (committed exampleDatabase)) = 3"
    by (simp add: chunkDocumentJoin_def exampleDatabase_def exampleTables_def)
  from a b c d j show ?thesis by (intro conjI)
qed

section \<open>Evaluation of the retrieved chunks\<close>

lemma runEval_loop_map:
  "runEval_loop invokeJudge parseJudgeResponse q rs acc =
     acc @ map (\<lambda>r. case evaluateChunk invokeJudge parseJudgeResponse q r of
                      Inl e \<Rightarrow> failedEvaluation r
                    | Inr evaluation \<Rightarrow> evaluation) rs"
  by (induction rs arbitrary: acc) (auto split: sum.splits)

text \<open>
  C10: when the retrieval returns, \<open>runEval\<close> returns too, with one evaluation per
  retrieved chunk, in order. A chunk whose evaluation throws (the call of the judge
  fails, or its answer cannot be parsed) gets the chunk's \<open>chunkIndex\<close> and \<open>filePath\<close>,
  relevance 1, sufficiency 1 and the fixed reasoning text; every other chunk gets the
  evaluation that the judge gave.
\<close>

theorem runEval_defaults_failed_chunks:
  assumes "retrieve distance scanned generateEmbedding db topK q cat = Inr rr"
  shows "\<exists>er. runEval distance scanned generateEmbedding db topK invokeJudge parseJudgeResponse q cat = Inr er \<and>
           length (EvalResult.chunks er) = length (RetrieveResult.results rr) \<and>
           (\<forall>i < length (RetrieveResult.results rr).
              (\<forall>e. evaluateChunk invokeJudge parseJudgeResponse q (RetrieveResult.results rr ! i) = Inl e
                 \<longrightarrow> EvalResult.chunks er ! i =
                       \<lparr> ChunkEvaluation.chunkIndex = SearchResult.chunkIndex (RetrieveResult.results rr ! i),
                         filePath = SearchResult.filePath (RetrieveResult.results rr ! i),
                         relevance = 1, sufficiency = 1,
                         reasoning = ''Evaluation failed; defaulted to lowest scores.'' \<rparr>) \<and>
              (\<forall>ev. evaluateChunk invokeJudge parseJudgeResponse q (RetrieveResult.results rr ! i) = Inr ev
                 \<longrightarrow> EvalResult.chunks er ! i = ev))"
proof -
  define evs where "evs = runEval_loop invokeJudge parseJudgeResponse q (RetrieveResult.results rr) []"
  have m: "evs = map (\<lambda>r. case evaluateChunk invokeJudge parseJudgeResponse q r of
                      Inl e \<Rightarrow> failedEvaluation r
                    | Inr evaluation \<Rightarrow> evaluation) (RetrieveResult.results rr)"
    by (simp add: evs_def runEval_loop_map)
  have r: "runEval distance scanned generateEmbedding db topK invokeJudge parseJudgeResponse q cat =
      Inr \<lparr> EvalResult.query = q, chunks = evs,
            avgRelevance = average (map ChunkEvaluation.relevance evs),
            avgSufficiency = average (map ChunkEvaluation.sufficiency evs) \<rparr>"
    using assms by (simp add: runEval_def evs_def Let_def)
  have l: "length evs = length (RetrieveResult.results rr)" by (simp add: m)
  have f: "evs ! i = failedEvaluation (RetrieveResult.results rr ! i)"
    if "i < length (RetrieveResult.results rr)"
       "evaluateChunk invokeJudge parseJudgeResponse q (RetrieveResult.results rr ! i) = Inl e" for i e
    using that by (simp add: m)
  have g: "evs ! i = ev"
    if "i < length (RetrieveResult.results rr)"
       "evaluateChunk invokeJudge parseJudgeResponse q (RetrieveResult.results rr ! i) = Inr ev" for i ev
    using that by (simp add: m)
  let ?er = "\<lparr> EvalResult.query = q, chunks = evs,
            avgRelevance = average (map ChunkEvaluation.relevance evs),
            avgSufficiency = average (map ChunkEvaluation.sufficiency evs) \<rparr>"
  show ?thesis
  proof (intro exI conjI allI impI)
    show "runEval distance scanned generateEmbedding db topK invokeJudge parseJudgeResponse q cat = Inr ?er"
      by (rule r)
    show "length (EvalResult.chunks ?er) = length (RetrieveResult.results rr)"
      using l by simp
  next
    fix i e
    assume "i < length (RetrieveResult.results rr)"
      and "evaluateChunk invokeJudge parseJudgeResponse q (RetrieveResult.results rr ! i) = Inl e"
    then have "evs ! i = failedEvaluation (RetrieveResult.results rr ! i)" by (rule f)
    then show "EvalResult.chunks ?er ! i =
        \<lparr> ChunkEvaluation.chunkIndex = SearchResult.chunkIndex (RetrieveResult.results rr ! i),
          filePath = SearchResult.filePath (RetrieveResult.results rr ! i),
          relevance = 1, sufficiency = 1,
          reasoning = ''Evaluation failed; defaulted to lowest scores.'' \<rparr>"
      by (simp add: failedEvaluation_def)
  next
    fix i ev
    assume "i < length (RetrieveResult.results rr)"
      and "evaluateChunk invokeJudge parseJudgeResponse q (RetrieveResult.results rr ! i) = Inr ev"
    then have "evs ! i = ev" by (rule g)
    then show "EvalResult.chunks ?er ! i = ev" by simp
  qed
qed

theorem runEval_defaults_failed_chunks_witness:
  "\<exists>er. runEval exampleDistance scanAll exampleEmbedding exampleDatabase 5 exampleJudge exampleParse ''q''
           (Some ''shipping'') = Inr er \<and>
     length (EvalResult.chunks er) = 2 \<and>
     EvalResult.chunks er ! 0 =
       \<lparr> ChunkEvaluation.chunkIndex = 1, filePath = ''shipping/slips.md'',
         relevance = 4, sufficiency = 3, reasoning = ''ok'' \<rparr> \<and>
     EvalResult.chunks er ! 1 =
       \<lparr> ChunkEvaluation.chunkIndex = 0, filePath = ''shipping/slips.md'',
         relevance = 1, sufficiency = 1,
         reasoning = ''Evaluation failed; defaulted to lowest scores.'' \<rparr>"
proof -
  let ?rs = "[exampleResult 2 1 ''slips'' ''shipping'' ''shipping/slips.md'' 1 8 13 0,
              exampleResult 1 1 ''packing'' ''shipping'' ''shipping/slips.md'' 0 0 7 (-2)]"
  have f: "evaluateChunk exampleJudge exampleParse ''q'' (?rs ! 1) = Inl (JudgeError ''throttled'')"
    by (simp add: evaluateChunk_def exampleJudge_def exampleResult_def)
  have g: "evaluateChunk exampleJudge exampleParse ''q'' (?rs ! 0) =
      Inr \<lparr> ChunkEvaluation.chunkIndex = 1, filePath = ''shipping/slips.md'',
         relevance = 4, sufficiency = 3, reasoning = ''ok'' \<rparr>"
    by (simp add: evaluateChunk_def exampleJudge_def exampleParse_def exampleResult_def)
  from runEval_defaults_failed_chunks [OF example_retrieve_shipping, of exampleJudge exampleParse]
  obtain er where
    er: "runEval exampleDistance scanAll exampleEmbedding exampleDatabase 5 exampleJudge exampleParse ''q''
           (Some ''shipping'') = Inr er"
        "length (EvalResult.chunks er) = length ?rs"
        "\<forall>i < length ?rs.
              (\<forall>e. evaluateChunk exampleJudge exampleParse ''q'' (?rs ! i) = Inl e
                 \<longrightarrow> EvalResult.chunks er ! i =
                       \<lparr> ChunkEvaluation.chunkIndex = SearchResult.chunkIndex (?rs ! i),
                         filePath = SearchResult.filePath (?rs ! i),
                         relevance = 1, sufficiency = 1,
                         reasoning = ''Evaluation failed; defaulted to lowest scores.'' \<rparr>) \<and>
              (\<forall>ev. evaluateChunk exampleJudge exampleParse ''q'' (?rs ! i) = Inr ev
                 \<longrightarrow> EvalResult.chunks er ! i = ev)"
    by auto
  have "(1::nat) < length ?rs" and "(0::nat) < length ?rs" by simp_all
  with er(3) f g have
    "EvalResult.chunks er ! 1 =
       \<lparr> ChunkEvaluation.chunkIndex = SearchResult.chunkIndex (?rs ! 1),
         filePath = SearchResult.filePath (?rs ! 1),
         relevance = 1, sufficiency = 1,
         reasoning = ''Evaluation failed; defaulted to lowest scores.'' \<rparr>"
    and "EvalResult.chunks er ! 0 = \<lparr> ChunkEvaluation.chunkIndex = 1, filePath = ''shipping/slips.md'',
         relevance = 4, sufficiency = 3, reasoning = ''ok'' \<rparr>"
    by blast+
  then show ?thesis using er(1) er(2) by (auto simp: exampleResult_def)
qed

end
